theory Spec2Isabelle
  imports Main "HOL-Library.Word" "HOL-Library.Code_Target_Numeral"
begin

unbundle bit_operations_syntax

section \<open>Measurement record readers of Stim (src/io/measure\_record\_reader.cc)\<close>

text \<open>
  The readers decode records of bits from a byte stream in one of five formats.
  The embedding follows \<^verbatim>\<open>measure_record_reader.cc\<close> and the field declarations
  of \<^verbatim>\<open>measure_record_reader.h\<close>.

  Conventions (LP64 Linux, the platform the code is built for):
  \<^item> a \<^verbatim>\<open>FILE*\<close> is the list of bytes not yet consumed; \<^verbatim>\<open>getc\<close> returns the next
    byte as an \<^verbatim>\<open>int\<close> in 0..255, or \<^verbatim>\<open>EOF\<close> = -1;
  \<^item> \<^verbatim>\<open>size_t\<close> values are \<^typ>\<open>nat\<close>, with the reduction modulo \<open>2^64\<close> written where
    an addition is not guarded; \<^verbatim>\<open>long\<close> and \<^verbatim>\<open>int\<close> values are \<^typ>\<open>int\<close>, with the
    two's complement wrap of 64 bits written where an operation can leave the range;
  \<^item> C++ exceptions do not roll the object back, so every member function returns the
    thrown error or the result together with the reader as the call left it;
  \<^item> \<^verbatim>\<open>std::invalid_argument\<close> is \<open>ConfigurationError\<close>, \<^verbatim>\<open>std::runtime_error\<close> is
    \<open>MalformedInput\<close>, \<^verbatim>\<open>std::out_of_range\<close> is \<open>EndOfRecord\<close> or \<open>EndOfStream\<close>
    according to its message ("past end-of-record", "past end-of-file").
\<close>

type_synonym uint8 = "8 word"

datatype error = ConfigurationError | MalformedInput | EndOfRecord | EndOfStream

abbreviation (input) EOF :: int where
  "EOF \<equiv> - 1"

abbreviation (input) ch :: "char \<Rightarrow> int" where
  "ch c \<equiv> of_char c"

definition getc :: "uint8 list \<Rightarrow> int \<times> uint8 list" where
  "getc s = (case s of [] \<Rightarrow> (EOF, []) | c # cs \<Rightarrow> (uint c, cs))"

definition SSIZE_MAX :: nat where
  "SSIZE_MAX = 2 ^ 63 - 1"

definition long_wrap :: "int \<Rightarrow> int" where
  "long_wrap x = (x + 2 ^ 63) mod 2 ^ 64 - 2 ^ 63"

definition size_t_of_long :: "int \<Rightarrow> nat" where
  "size_t_of_long x = nat (x mod 2 ^ 64)"

definition isdigit :: "int \<Rightarrow> bool" where
  "isdigit c \<longleftrightarrow> ch CHR ''0'' \<le> c \<and> c \<le> ch CHR ''9''"

subsection \<open>The base class\<close>

text \<open>
  The counter of the base class is called \<^verbatim>\<open>position\<close> in the member functions of the
  \<^verbatim>\<open>.cc\<close> file (and \<^verbatim>\<open>bits_returned\<close> in the header). The constructor rejects a record
  size above \<^verbatim>\<open>SSIZE_MAX\<close>.
\<close>

record MeasureRecordReader =
  position :: nat
  bits_per_record :: nat

definition MeasureRecordReader_ctor :: "nat \<Rightarrow> error + MeasureRecordReader" where
  "MeasureRecordReader_ctor n_bits =
     (if n_bits > SSIZE_MAX then Inl ConfigurationError
      else Inr \<lparr>position = 0, bits_per_record = n_bits\<rparr>)"

definition MeasureRecordReader_is_end_of_record ::
  "'a MeasureRecordReader_scheme \<Rightarrow> bool \<times> 'a MeasureRecordReader_scheme" where
  "MeasureRecordReader_is_end_of_record st = (position st \<ge> bits_per_record st, st)"

definition MeasureRecordReader_next_record ::
  "'a MeasureRecordReader_scheme \<Rightarrow> (error + bool) \<times> 'a MeasureRecordReader_scheme" where
  "MeasureRecordReader_next_record st = (Inr False, st\<lparr>position := 0\<rparr>)"

text \<open>
  \<^verbatim>\<open>MeasureRecordReader::read_bytes\<close> calls the virtual \<^verbatim>\<open>read_bit\<close> and
  \<^verbatim>\<open>is_end_of_record\<close>: they are the parameters \<open>rb\<close> and \<open>eor\<close>. The byte \<^verbatim>\<open>b\<close> is a
  reference into the caller's buffer, so the buffer is returned as the call left it,
  also when \<^verbatim>\<open>read_bit\<close> throws.
\<close>

datatype flow = Threw error | Returned | Completed

function read_bytes_inner ::
  "('s \<Rightarrow> (error + bool) \<times> 's) \<Rightarrow> ('s \<Rightarrow> bool \<times> 's) \<Rightarrow> nat \<Rightarrow> uint8 \<Rightarrow> nat \<Rightarrow> 's
     \<Rightarrow> flow \<times> uint8 \<times> nat \<times> 's" where
  "read_bytes_inner rb eor k b n st =
     (if k < 8 then
        (case rb st of
           (Inl e, st1) \<Rightarrow> (Threw e, b, n, st1)
         | (Inr bv, st1) \<Rightarrow>
             (let b1 = b OR push_bit k (of_bool bv); n1 = n + 1 in
              case eor st1 of
                (True, st2) \<Rightarrow> (Returned, b1, n1, st2)
              | (False, st2) \<Rightarrow> read_bytes_inner rb eor (k + 1) b1 n1 st2))
      else (Completed, b, n, st))"
  by pat_completeness auto
termination
  by (relation "measure (\<lambda>(rb, eor, k, b, n, st). 8 - k)") auto

declare read_bytes_inner.simps [simp del]

fun read_bytes_loop ::
  "('s \<Rightarrow> (error + bool) \<times> 's) \<Rightarrow> ('s \<Rightarrow> bool \<times> 's) \<Rightarrow> uint8 list \<Rightarrow> nat \<Rightarrow> 's
     \<Rightarrow> (error + nat) \<times> uint8 list \<times> 's" where
  "read_bytes_loop rb eor [] n st = (Inr n, [], st)"
| "read_bytes_loop rb eor (b # data) n st =
     (case read_bytes_inner rb eor 0 0 n st of
        (Threw e, b1, n1, st1) \<Rightarrow> (Inl e, b1 # data, st1)
      | (Returned, b1, n1, st1) \<Rightarrow> (Inr n1, b1 # data, st1)
      | (Completed, b1, n1, st1) \<Rightarrow>
          (case read_bytes_loop rb eor data n1 st1 of
             (r, data1, st2) \<Rightarrow> (r, b1 # data1, st2)))"

definition MeasureRecordReader_read_bytes ::
  "('a MeasureRecordReader_scheme \<Rightarrow> (error + bool) \<times> 'a MeasureRecordReader_scheme)
     \<Rightarrow> ('a MeasureRecordReader_scheme \<Rightarrow> bool \<times> 'a MeasureRecordReader_scheme)
     \<Rightarrow> uint8 list \<Rightarrow> 'a MeasureRecordReader_scheme
     \<Rightarrow> (error + nat) \<times> uint8 list \<times> 'a MeasureRecordReader_scheme" where
  "MeasureRecordReader_read_bytes rb eor data st =
     (if position st \<ge> bits_per_record st then (Inr 0, data, st)
      else read_bytes_loop rb eor data 0 st)"

subsection \<open>Format 01\<close>

record Format01 = MeasureRecordReader +
  inp :: "uint8 list"
  payload :: int

definition Format01_ctor :: "uint8 list \<Rightarrow> nat \<Rightarrow> error + Format01" where
  "Format01_ctor stream n_bits =
     (case MeasureRecordReader_ctor n_bits of
        Inl e \<Rightarrow> Inl e
      | Inr base \<Rightarrow>
          (let (c, rest) = getc stream
           in Inr (MeasureRecordReader.extend base \<lparr>inp = rest, payload = c\<rparr>)))"

definition Format01_read_bit :: "Format01 \<Rightarrow> (error + bool) \<times> Format01" where
  "Format01_read_bit st =
     (if payload st = EOF then (Inl EndOfStream, st)
      else if payload st = ch CHR 0x0A \<or> position st \<ge> bits_per_record st
        then (Inl EndOfRecord, st)
      else if payload st \<noteq> ch CHR ''0'' \<and> payload st \<noteq> ch CHR ''1''
        then (Inl MalformedInput, st)
      else
        (let bv = (payload st = ch CHR ''1'');
             (c, rest) = getc (inp st)
         in (Inr bv, st\<lparr>payload := c, inp := rest, position := position st + 1\<rparr>)))"

text \<open>
  The loop of \<^verbatim>\<open>next_record\<close>: \<^verbatim>\<open>++position\<close> is part of the condition, so the
  cursor is advanced also by the test that ends the loop.
\<close>

function Format01_skip :: "Format01 \<Rightarrow> Format01" where
  "Format01_skip st =
     (if payload st \<noteq> EOF \<and> payload st \<noteq> ch CHR 0x0A then
        (let st1 = st\<lparr>position := position st + 1\<rparr> in
         if position st1 < bits_per_record st1 then
           (let (c, rest) = getc (inp st1)
            in Format01_skip (st1\<lparr>payload := c, inp := rest\<rparr>))
         else st1)
      else st)"
  by pat_completeness auto
termination
  by (relation "measure (\<lambda>st. bits_per_record st - position st)") auto

declare Format01_skip.simps [simp del]

definition Format01_next_record :: "Format01 \<Rightarrow> (error + bool) \<times> Format01" where
  "Format01_next_record st =
     (let st1 = Format01_skip st in
      if position st1 > bits_per_record st1 then (Inl MalformedInput, st1)
      else
        (let (c, rest) = getc (inp st1);
             st2 = st1\<lparr>position := 0, payload := c, inp := rest\<rparr>
         in (Inr (payload st2 \<noteq> EOF), st2)))"

definition Format01_is_end_of_record :: "Format01 \<Rightarrow> bool \<times> Format01" where
  "Format01_is_end_of_record st =
     (payload st = EOF \<or> payload st = ch CHR 0x0A \<or> position st \<ge> bits_per_record st, st)"

subsection \<open>Format B8\<close>

record FormatB8 = MeasureRecordReader +
  inp :: "uint8 list"
  payload :: int
  bits_available :: uint8

definition FormatB8_ctor :: "uint8 list \<Rightarrow> nat \<Rightarrow> error + FormatB8" where
  "FormatB8_ctor stream n_bits =
     (case MeasureRecordReader_ctor n_bits of
        Inl e \<Rightarrow> Inl e
      | Inr base \<Rightarrow>
          Inr (MeasureRecordReader.extend base
                 \<lparr>inp = stream, payload = 0, bits_available = 0\<rparr>))"

definition FormatB8_maybe_update_payload :: "FormatB8 \<Rightarrow> FormatB8" where
  "FormatB8_maybe_update_payload st =
     (if bits_available st > 0 then st
      else
        (let (c, rest) = getc (FormatB8.inp st);
             st1 = st\<lparr>FormatB8.payload := c, FormatB8.inp := rest\<rparr>
         in if FormatB8.payload st1 \<noteq> EOF then st1\<lparr>bits_available := 8\<rparr> else st1))"

definition FormatB8_read_bit :: "FormatB8 \<Rightarrow> (error + bool) \<times> FormatB8" where
  "FormatB8_read_bit st =
     (if position st \<ge> bits_per_record st then (Inl EndOfRecord, st)
      else
        (let st1 = FormatB8_maybe_update_payload st in
         if FormatB8.payload st1 = EOF then (Inl EndOfStream, st1)
         else
           (let b = (FormatB8.payload st1 AND 1 \<noteq> 0)
            in (Inr b, st1\<lparr>FormatB8.payload := drop_bit 1 (FormatB8.payload st1),
                          bits_available := bits_available st1 - 1,
                          position := position st1 + 1\<rparr>))))"

definition FormatB8_is_end_of_record :: "FormatB8 \<Rightarrow> bool \<times> FormatB8" where
  "FormatB8_is_end_of_record st =
     (let st1 = FormatB8_maybe_update_payload st
      in ((bits_available st1 = 0 \<and> FormatB8.payload st1 = EOF)
            \<or> position st1 \<ge> bits_per_record st1, st1))"

text \<open>
  \<^verbatim>\<open>fread\<close> of \<open>n\<close> bytes: the bytes read (fewer than \<open>n\<close> at the end of the stream)
  and the rest of the stream.
\<close>

definition fread :: "uint8 list \<Rightarrow> nat \<Rightarrow> uint8 list \<times> uint8 list" where
  "fread s n = (take n s, drop n s)"

definition FormatB8_read_bytes ::
  "uint8 list \<Rightarrow> FormatB8 \<Rightarrow> (error + nat) \<times> uint8 list \<times> FormatB8" where
  "FormatB8_read_bytes data st =
     (if position st \<ge> bits_per_record st then (Inr 0, data, st)
      else if bits_available st > 0
        then MeasureRecordReader_read_bytes FormatB8_read_bit FormatB8_is_end_of_record data st
      else
        (let n_bits = min (8 * length data) (bits_per_record st - position st);
             n_bytes = (n_bits + 7) div 8;
             (got, rest) = fread (FormatB8.inp st) n_bytes;
             n_bytes1 = length got;
             n_bits1 = min (8 * n_bytes1) n_bits
         in (Inr n_bits1, got @ drop n_bytes1 data,
             st\<lparr>FormatB8.inp := rest, position := position st + n_bits1\<rparr>)))"

subsection \<open>Format R8\<close>

record FormatR8 = MeasureRecordReader +
  inp :: "uint8 list"
  run_length_0s :: nat
  run_length_1s :: nat
  generated_0s :: nat
  generated_1s :: nat

text \<open>The loop \<^verbatim>\<open>while (r == 0xFF) { run_length_0s += 0xFF; r = getc(in); }\<close>.\<close>

function FormatR8_continue_run :: "uint8 list \<Rightarrow> nat \<Rightarrow> int \<Rightarrow> uint8 list \<times> nat \<times> int" where
  "FormatR8_continue_run s len r =
     (if r = 0xFF then
        (let len1 = (len + 0xFF) mod 2 ^ 64;
             (c, rest) = getc s
         in FormatR8_continue_run rest len1 c)
      else (s, len, r))"
  by pat_completeness auto
termination
  by (relation "measure (\<lambda>(s, len, r). length s + (if r = 0xFF then 1 else 0))")
     (auto simp: getc_def split: list.splits)

declare FormatR8_continue_run.simps [simp del]

definition FormatR8_update_run_length :: "FormatR8 \<Rightarrow> bool \<times> FormatR8" where
  "FormatR8_update_run_length st =
     (let (r, rest) = getc (FormatR8.inp st) in
      if r = EOF then (False, st\<lparr>FormatR8.inp := rest\<rparr>)
      else
        (case FormatR8_continue_run rest 0 r of
           (rest1, len, r1) \<Rightarrow>
             (True, st\<lparr>FormatR8.inp := rest1,
                      run_length_0s := (if r1 > 0 then (len + nat r1) mod 2 ^ 64 else len),
                      run_length_1s := 1,
                      generated_0s := 0,
                      generated_1s := 0\<rparr>)))"

definition FormatR8_ctor :: "uint8 list \<Rightarrow> nat \<Rightarrow> error + FormatR8" where
  "FormatR8_ctor stream n_bits =
     (case MeasureRecordReader_ctor n_bits of
        Inl e \<Rightarrow> Inl e
      | Inr base \<Rightarrow>
          (let st = MeasureRecordReader.extend base
                      \<lparr>inp = stream, run_length_0s = 0, run_length_1s = 0,
                       generated_0s = 0, generated_1s = 1\<rparr>;
               (found, st1) = FormatR8_update_run_length st
           in Inr (st1\<lparr>run_length_1s := 0\<rparr>)))"

definition FormatR8_read_bit :: "FormatR8 \<Rightarrow> (error + bool) \<times> FormatR8" where
  "FormatR8_read_bit st =
     (if position st \<ge> bits_per_record st then (Inl EndOfRecord, st)
      else if generated_1s st < run_length_1s st then
        (Inr True, st\<lparr>generated_1s := generated_1s st + 1, position := position st + 1\<rparr>)
      else if generated_0s st < run_length_0s st then
        (Inr False, st\<lparr>generated_0s := generated_0s st + 1, position := position st + 1\<rparr>)
      else
        (case FormatR8_update_run_length st of
           (False, st1) \<Rightarrow> (Inl EndOfStream, st1)
         | (True, st1) \<Rightarrow>
             (Inr True,
              st1\<lparr>generated_1s := generated_1s st1 + 1, position := position st1 + 1\<rparr>)))"

definition FormatR8_is_end_of_record :: "FormatR8 \<Rightarrow> bool \<times> FormatR8" where
  "FormatR8_is_end_of_record st =
     (if position st \<ge> bits_per_record st then (True, st)
      else if generated_0s st < run_length_0s st then (False, st)
      else if generated_1s st < run_length_1s st then (False, st)
      else (case FormatR8_update_run_length st of (found, st1) \<Rightarrow> (\<not> found, st1)))"

text \<open>
  The override of \<^verbatim>\<open>read_bytes\<close>: whole zero bytes are produced without reading bits;
  in the other bytes the end of the record is tested before each bit.
\<close>

function FormatR8_read_bytes_inner ::
  "nat \<Rightarrow> uint8 \<Rightarrow> nat \<Rightarrow> FormatR8 \<Rightarrow> flow \<times> uint8 \<times> nat \<times> FormatR8" where
  "FormatR8_read_bytes_inner k b n st =
     (if k < 8 then
        (case FormatR8_is_end_of_record st of
           (True, st1) \<Rightarrow> (Returned, b, n, st1)
         | (False, st1) \<Rightarrow>
             (case FormatR8_read_bit st1 of
                (Inl e, st2) \<Rightarrow> (Threw e, b, n, st2)
              | (Inr bv, st2) \<Rightarrow>
                  FormatR8_read_bytes_inner (k + 1) (b OR push_bit k (of_bool bv)) (n + 1) st2))
      else (Completed, b, n, st))"
  by pat_completeness auto
termination
  by (relation "measure (\<lambda>(k, b, n, st). 8 - k)") auto

declare FormatR8_read_bytes_inner.simps [simp del]

fun FormatR8_read_bytes_loop ::
  "uint8 list \<Rightarrow> nat \<Rightarrow> FormatR8 \<Rightarrow> (error + nat) \<times> uint8 list \<times> FormatR8" where
  "FormatR8_read_bytes_loop [] n st = (Inr n, [], st)"
| "FormatR8_read_bytes_loop (b # data) n st =
     (if run_length_0s st \<ge> (generated_0s st + 8) mod 2 ^ 64
         \<and> bits_per_record st \<ge> (position st + 8) mod 2 ^ 64 then
        (case FormatR8_read_bytes_loop data (n + 8)
                (st\<lparr>position := position st + 8, generated_0s := generated_0s st + 8\<rparr>) of
           (r, data1, st1) \<Rightarrow> (r, 0 # data1, st1))
      else
        (case FormatR8_read_bytes_inner 0 0 n st of
           (Threw e, b1, n1, st1) \<Rightarrow> (Inl e, b1 # data, st1)
         | (Returned, b1, n1, st1) \<Rightarrow> (Inr n1, b1 # data, st1)
         | (Completed, b1, n1, st1) \<Rightarrow>
             (case FormatR8_read_bytes_loop data n1 st1 of
                (r, data1, st2) \<Rightarrow> (r, b1 # data1, st2))))"

definition FormatR8_read_bytes ::
  "uint8 list \<Rightarrow> FormatR8 \<Rightarrow> (error + nat) \<times> uint8 list \<times> FormatR8" where
  "FormatR8_read_bytes data st =
     (if position st \<ge> bits_per_record st then (Inr 0, data, st)
      else FormatR8_read_bytes_loop data 0 st)"

subsection \<open>Reading an unsigned integer\<close>

text \<open>
  \<^verbatim>\<open>read_unsigned_int(in, value, next)\<close>: the result, the stream, \<^verbatim>\<open>value\<close> and
  \<^verbatim>\<open>next\<close>. \<^verbatim>\<open>value\<close> is a \<^verbatim>\<open>long\<close>; a number with too many digits overflows it, which
  the model renders as the wrap of two's complement.
\<close>

function read_digits :: "uint8 list \<Rightarrow> int \<Rightarrow> int \<Rightarrow> uint8 list \<times> int \<times> int" where
  "read_digits s val nxt =
     (if isdigit nxt then
        (let val1 = long_wrap (val * 10);
             val2 = long_wrap (val1 + (nxt - ch CHR ''0''));
             (c, rest) = getc s
         in read_digits rest val2 c)
      else (s, val, nxt))"
  by pat_completeness auto
termination
  by (relation "measure (\<lambda>(s, val, nxt). length s + (if isdigit nxt then 1 else 0))")
     (auto simp: getc_def isdigit_def split: list.splits)

declare read_digits.simps [simp del]

definition read_unsigned_int :: "uint8 list \<Rightarrow> int \<Rightarrow> bool \<times> uint8 list \<times> int \<times> int" where
  "read_unsigned_int s val =
     (let (nxt, rest) = getc s in
      if \<not> isdigit nxt then (False, rest, val, nxt)
      else (case read_digits rest 0 nxt of (s1, val1, nxt1) \<Rightarrow> (True, s1, val1, nxt1)))"

subsection \<open>Format Hits\<close>

text \<open>
  The header declares a \<^verbatim>\<open>long position\<close> in this class, which hides the counter of
  the base class: \<^verbatim>\<open>read_bit\<close> advances \<open>FormatHits.position\<close>, and the member
  functions inherited from the base class read \<open>MeasureRecordReader.position\<close>.
  \<^verbatim>\<open>separator\<close> has no initialiser; the constructor's call of \<^verbatim>\<open>update_next_hit\<close>
  assigns it before it is read.
\<close>

record FormatHits = MeasureRecordReader +
  inp :: "uint8 list"
  separator :: int
  next_hit :: int
  position :: int

definition FormatHits_update_next_hit :: "FormatHits \<Rightarrow> (error + unit) \<times> FormatHits" where
  "FormatHits_update_next_hit st =
     (let (ok, rest, val, nxt) = read_unsigned_int (FormatHits.inp st) (next_hit st);
          st1 = st\<lparr>FormatHits.inp := rest, next_hit := val, separator := nxt\<rparr>
      in
        if \<not> ok then
          (if separator st1 \<noteq> ch CHR 0x0A \<and> separator st1 \<noteq> EOF
           then (Inl MalformedInput, st1) else (Inr (), st1))
        else if separator st1 \<noteq> ch CHR '','' \<and> separator st1 \<noteq> ch CHR 0x0A
          then (Inl MalformedInput, st1)
        else if next_hit st1 < FormatHits.position st1 then (Inl MalformedInput, st1)
        else if size_t_of_long (next_hit st1) \<ge> bits_per_record st1
          then (Inl MalformedInput, st1)
        else (Inr (), st1))"

definition FormatHits_ctor :: "uint8 list \<Rightarrow> nat \<Rightarrow> error + FormatHits" where
  "FormatHits_ctor stream n_bits =
     (case MeasureRecordReader_ctor n_bits of
        Inl e \<Rightarrow> Inl e
      | Inr base \<Rightarrow>
          (case FormatHits_update_next_hit
                  (MeasureRecordReader.extend base
                     \<lparr>inp = stream, separator = 0, next_hit = - 1, position = 0\<rparr>) of
             (Inl e, st) \<Rightarrow> Inl e
           | (Inr u, st) \<Rightarrow> Inr st))"

definition FormatHits_read_bit :: "FormatHits \<Rightarrow> (error + bool) \<times> FormatHits" where
  "FormatHits_read_bit st =
     (if size_t_of_long (FormatHits.position st) \<ge> bits_per_record st
        then (Inl EndOfRecord, st)
      else
        (case (if FormatHits.position st > next_hit st \<and> separator st = ch CHR '',''
               then FormatHits_update_next_hit st else (Inr (), st)) of
           (Inl e, st1) \<Rightarrow> (Inl e, st1)
         | (Inr u, st1) \<Rightarrow>
             (Inr (next_hit st1 = FormatHits.position st1),
              st1\<lparr>FormatHits.position := FormatHits.position st1 + 1\<rparr>)))"

text \<open>
  The loop \<^verbatim>\<open>while (separator == ',') update_next_hit();\<close> of \<^verbatim>\<open>next_record\<close> ends
  because every pass consumes a byte of the stream or finds its end.
\<close>

lemma read_digits_length: "length (fst (read_digits s v n)) \<le> length s"
proof (induction s v n rule: read_digits.induct)
  case (1 s val nxt)
  show ?case
  proof (cases "isdigit nxt")
    case True
    then show ?thesis
      using "1.IH"
      by (subst read_digits.simps)
         (fastforce simp: getc_def Let_def split: list.splits prod.splits)
  next
    case False
    then show ?thesis by (subst read_digits.simps) simp
  qed
qed

lemma read_unsigned_int_length:
  "read_unsigned_int s v = (ok, rest, val, nxt) \<Longrightarrow>
     (s = [] \<longrightarrow> rest = [] \<and> nxt = EOF \<and> \<not> ok) \<and> (s \<noteq> [] \<longrightarrow> length rest < length s)"
  using read_digits_length [of "tl s" 0 "uint (hd s)"]
  by (cases s)
     (auto simp: read_unsigned_int_def getc_def isdigit_def Let_def
           split: prod.splits if_splits)

function FormatHits_drain :: "FormatHits \<Rightarrow> (error + unit) \<times> FormatHits" where
  "FormatHits_drain st =
     (if separator st = ch CHR '','' then
        (case FormatHits_update_next_hit st of
           (Inl e, st1) \<Rightarrow> (Inl e, st1)
         | (Inr u, st1) \<Rightarrow> FormatHits_drain st1)
      else (Inr (), st))"
  by pat_completeness auto
termination
proof (relation "measure (\<lambda>st. 2 * length (FormatHits.inp st)
                            + (if separator st = ch CHR '','' then 1 else 0))", goal_cases)
  case 1
  show ?case by simp
next
  case (2 st x st1 u)
  obtain ok rest val nxt
    where r: "read_unsigned_int (FormatHits.inp st) (next_hit st) = (ok, rest, val, nxt)"
    by (metis prod_cases4)
  from 2 r have st1: "FormatHits.inp st1 = rest" "separator st1 = nxt"
    by (auto simp: FormatHits_update_next_hit_def Let_def split: if_splits)
  from read_unsigned_int_length [OF r] st1 2(1) show ?case
    by (cases "FormatHits.inp st = []") auto
qed

declare FormatHits_drain.simps [simp del]

definition FormatHits_next_record :: "FormatHits \<Rightarrow> (error + bool) \<times> FormatHits" where
  "FormatHits_next_record st =
     (case FormatHits_drain st of
        (Inl e, st1) \<Rightarrow> (Inl e, st1)
      | (Inr u, st1) \<Rightarrow>
          (case FormatHits_update_next_hit
                  (st1\<lparr>next_hit := - 1, FormatHits.position := 0\<rparr>) of
             (Inl e, st2) \<Rightarrow> (Inl e, st2)
           | (Inr u, st2) \<Rightarrow> (Inr (separator st2 \<noteq> EOF), st2)))"

subsection \<open>Format Dets\<close>

text \<open>
  \<^verbatim>\<open>maybe_consume_keyword(in, keyword, next)\<close>: the result or the error, the stream and
  \<^verbatim>\<open>next\<close>. The index \<^verbatim>\<open>i\<close> is incremented by the comparison itself
  (\<^verbatim>\<open>keyword[i++]\<close>), also when the comparison fails.
\<close>

function consume_keyword_loop ::
  "uint8 list \<Rightarrow> int list \<Rightarrow> nat \<Rightarrow> int \<Rightarrow> uint8 list \<times> nat \<times> int" where
  "consume_keyword_loop s keyword i nxt =
     (if i < length keyword then
        (if nxt = keyword ! i then
           (let (c, rest) = getc s in consume_keyword_loop rest keyword (i + 1) c)
         else (s, i + 1, nxt))
      else (s, i, nxt))"
  by pat_completeness auto
termination
  by (relation "measure (\<lambda>(s, keyword, i, nxt). length keyword - i)") auto

declare consume_keyword_loop.simps [simp del]

definition maybe_consume_keyword ::
  "uint8 list \<Rightarrow> int list \<Rightarrow> (error + bool) \<times> uint8 list \<times> int" where
  "maybe_consume_keyword s keyword =
     (let (nxt, rest) = getc s in
      if nxt = EOF then (Inr False, rest, nxt)
      else
        (case consume_keyword_loop rest keyword 0 nxt of
           (s1, i, nxt1) \<Rightarrow>
             if i \<noteq> length keyword then (Inl MalformedInput, s1, nxt1)
             else (Inr True, s1, nxt1)))"

definition shot_keyword :: "int list" where
  "shot_keyword = map of_char ''shot''"

text \<open>
  \<^verbatim>\<open>char next_result_type = getc(in)\<close> converts the \<^verbatim>\<open>int\<close> to a \<^verbatim>\<open>char\<close>, which is
  signed on the platform: the byte 255 and \<^verbatim>\<open>EOF\<close> both become -1.
\<close>

definition char_of_int_cast :: "int \<Rightarrow> int" where
  "char_of_int_cast c = (c + 128) mod 256 - 128"

text \<open>
  As in the Hits format, the header declares a \<^verbatim>\<open>long position\<close> that hides the
  counter of the base class.
\<close>

record FormatDets = MeasureRecordReader +
  inp :: "uint8 list"
  result_type :: int
  separator :: int
  next_shot :: int
  position :: int

definition FormatDets_update_next_shot :: "FormatDets \<Rightarrow> (error + unit) \<times> FormatDets" where
  "FormatDets_update_next_shot st =
     (let (c, rest) = getc (FormatDets.inp st);
          next_result_type = char_of_int_cast c;
          st1 = st\<lparr>FormatDets.inp := rest\<rparr>
      in
        if next_result_type = EOF then (Inr (), st1\<lparr>FormatDets.separator := EOF\<rparr>)
        else if next_result_type \<noteq> ch CHR ''M'' \<and> next_result_type \<noteq> ch CHR ''D''
                \<and> next_result_type \<noteq> ch CHR ''L''
          then (Inl MalformedInput, st1)
        else
          (let (ok, rest1, val, nxt) = read_unsigned_int (FormatDets.inp st1) (next_shot st1);
               st2 = st1\<lparr>FormatDets.inp := rest1, next_shot := val,
                        FormatDets.separator := nxt\<rparr>
           in
             if \<not> ok then (Inl MalformedInput, st2)
             else if FormatDets.separator st2 \<noteq> ch CHR '' ''
                     \<and> FormatDets.separator st2 \<noteq> ch CHR 0x0A
               then (Inl MalformedInput, st2)
             else
               (let st3 = (if next_result_type \<noteq> result_type st2
                           then st2\<lparr>next_shot :=
                                       long_wrap (next_shot st2 + FormatDets.position st2),
                                    result_type := next_result_type\<rparr>
                           else st2)
                in
                  if next_shot st3 < FormatDets.position st3 then (Inl MalformedInput, st3)
                  else if size_t_of_long (next_shot st3) \<ge> bits_per_record st3
                    then (Inl MalformedInput, st3)
                  else (Inr (), st3))))"

definition FormatDets_ctor :: "uint8 list \<Rightarrow> nat \<Rightarrow> nat \<Rightarrow> nat \<Rightarrow> error + FormatDets" where
  "FormatDets_ctor stream n_measurements n_detection_events n_logical_observables =
     (case MeasureRecordReader_ctor n_measurements of
        Inl e \<Rightarrow> Inl e
      | Inr base \<Rightarrow>
          (case maybe_consume_keyword stream shot_keyword of
             (Inl e, rest, nxt) \<Rightarrow> Inl e
           | (Inr False, rest, nxt) \<Rightarrow> Inl MalformedInput
           | (Inr True, rest, nxt) \<Rightarrow>
               (case FormatDets_update_next_shot
                       (MeasureRecordReader.extend base
                          \<lparr>inp = rest, result_type = ch CHR ''M'', separator = nxt,
                           next_shot = - 1, position = 0\<rparr>) of
                  (Inl e, st) \<Rightarrow> Inl e
                | (Inr u, st) \<Rightarrow> Inr st)))"

definition FormatDets_read_bit :: "FormatDets \<Rightarrow> (error + bool) \<times> FormatDets" where
  "FormatDets_read_bit st =
     (if size_t_of_long (FormatDets.position st) \<ge> bits_per_record st
        then (Inl EndOfRecord, st)
      else
        (case (if FormatDets.position st > next_shot st
                  \<and> FormatDets.separator st = ch CHR '' ''
               then FormatDets_update_next_shot st else (Inr (), st)) of
           (Inl e, st1) \<Rightarrow> (Inl e, st1)
         | (Inr u, st1) \<Rightarrow>
             (Inr (next_shot st1 = FormatDets.position st1),
              st1\<lparr>FormatDets.position := FormatDets.position st1 + 1\<rparr>)))"

definition FormatDets_current_result_type :: "FormatDets \<Rightarrow> int" where
  "FormatDets_current_result_type st = result_type st"

text \<open>
  The loop \<^verbatim>\<open>while (separator == ' ') update_next_shot();\<close> of \<^verbatim>\<open>next_record\<close> ends
  for the same reason as the one of the Hits format.
\<close>

function FormatDets_drain :: "FormatDets \<Rightarrow> (error + unit) \<times> FormatDets" where
  "FormatDets_drain st =
     (if FormatDets.separator st = ch CHR '' '' then
        (case FormatDets_update_next_shot st of
           (Inl e, st1) \<Rightarrow> (Inl e, st1)
         | (Inr u, st1) \<Rightarrow> FormatDets_drain st1)
      else (Inr (), st))"
  by pat_completeness auto
termination
proof (relation "measure (\<lambda>st. 2 * length (FormatDets.inp st)
                            + (if FormatDets.separator st = ch CHR '' '' then 1 else 0))",
       goal_cases)
  case 1
  show ?case by simp
next
  case (2 st x st1 u)
  show ?case
  proof (cases "FormatDets.inp st")
    case Nil
    with 2 show ?thesis
      by (auto simp: FormatDets_update_next_shot_def getc_def char_of_int_cast_def Let_def
               split: if_splits)
  next
    case (Cons c cs)
    obtain ok rest val nxt
      where r: "read_unsigned_int cs (next_shot st) = (ok, rest, val, nxt)"
      by (metis prod_cases4)
    from read_unsigned_int_length [OF r] have "length rest \<le> length cs"
      by (cases "cs = []") auto
    with 2 Cons r show ?thesis
      by (auto simp: FormatDets_update_next_shot_def getc_def Let_def
               split: if_splits)
  qed
qed

declare FormatDets_drain.simps [simp del]

definition FormatDets_next_record :: "FormatDets \<Rightarrow> (error + bool) \<times> FormatDets" where
  "FormatDets_next_record st =
     (case FormatDets_drain st of
        (Inl e, st1) \<Rightarrow> (Inl e, st1)
      | (Inr u, st1) \<Rightarrow>
          (case maybe_consume_keyword (FormatDets.inp st1) shot_keyword of
             (found, rest, nxt) \<Rightarrow>
               (let st2 = st1\<lparr>FormatDets.inp := rest, FormatDets.separator := nxt\<rparr> in
                case found of
                  Inl e \<Rightarrow> (Inl e, st2)
                | Inr False \<Rightarrow> (Inr False, st2)
                | Inr True \<Rightarrow>
                    (case FormatDets_update_next_shot
                            (st2\<lparr>next_shot := - 1, FormatDets.position := 0\<rparr>) of
                       (Inl e, st3) \<Rightarrow> (Inl e, st3)
                     | (Inr u, st3) \<Rightarrow> (Inr True, st3)))))"

subsection \<open>The reader behind the base class pointer\<close>

text \<open>
  \<^verbatim>\<open>MeasureRecordReader::make\<close> returns a pointer to the base class; a call of a
  virtual member function runs the override of the object's class, or the member
  function of the base class where the class has none.

  The declaration of \<^verbatim>\<open>SampleFormat\<close> is not in the files at hand: its values here are
  the enumerators \<^verbatim>\<open>make\<close> switches on, and one for any other value (the \<^verbatim>\<open>default\<close>
  label).
\<close>

datatype SampleFormat =
  SAMPLE_FORMAT_01 | SAMPLE_FORMAT_B8 | SAMPLE_FORMAT_DETS | SAMPLE_FORMAT_HITS
  | SAMPLE_FORMAT_PTB64 | SAMPLE_FORMAT_R8 | SAMPLE_FORMAT_unlisted

datatype reader =
  Reader01 Format01 | ReaderB8 FormatB8 | ReaderDets FormatDets | ReaderHits FormatHits
  | ReaderR8 FormatR8

definition make :: "uint8 list \<Rightarrow> SampleFormat \<Rightarrow> nat \<Rightarrow> nat \<Rightarrow> nat \<Rightarrow> error + reader" where
  "make stream input_format n_measurements n_detection_events n_logical_observables =
     (if input_format \<noteq> SAMPLE_FORMAT_DETS \<and> n_detection_events \<noteq> 0
        then Inl ConfigurationError
      else if input_format \<noteq> SAMPLE_FORMAT_DETS \<and> n_logical_observables \<noteq> 0
        then Inl ConfigurationError
      else
        (case input_format of
           SAMPLE_FORMAT_01 \<Rightarrow> map_sum id Reader01 (Format01_ctor stream n_measurements)
         | SAMPLE_FORMAT_B8 \<Rightarrow> map_sum id ReaderB8 (FormatB8_ctor stream n_measurements)
         | SAMPLE_FORMAT_DETS \<Rightarrow>
             map_sum id ReaderDets
               (FormatDets_ctor stream n_measurements n_detection_events n_logical_observables)
         | SAMPLE_FORMAT_HITS \<Rightarrow> map_sum id ReaderHits (FormatHits_ctor stream n_measurements)
         | SAMPLE_FORMAT_PTB64 \<Rightarrow> Inl ConfigurationError
         | SAMPLE_FORMAT_R8 \<Rightarrow> map_sum id ReaderR8 (FormatR8_ctor stream n_measurements)
         | SAMPLE_FORMAT_unlisted \<Rightarrow> Inl ConfigurationError))"

definition read_bit :: "reader \<Rightarrow> (error + bool) \<times> reader" where
  "read_bit r =
     (case r of
        Reader01 st \<Rightarrow> apsnd Reader01 (Format01_read_bit st)
      | ReaderB8 st \<Rightarrow> apsnd ReaderB8 (FormatB8_read_bit st)
      | ReaderDets st \<Rightarrow> apsnd ReaderDets (FormatDets_read_bit st)
      | ReaderHits st \<Rightarrow> apsnd ReaderHits (FormatHits_read_bit st)
      | ReaderR8 st \<Rightarrow> apsnd ReaderR8 (FormatR8_read_bit st))"

definition is_end_of_record :: "reader \<Rightarrow> bool \<times> reader" where
  "is_end_of_record r =
     (case r of
        Reader01 st \<Rightarrow> apsnd Reader01 (Format01_is_end_of_record st)
      | ReaderB8 st \<Rightarrow> apsnd ReaderB8 (FormatB8_is_end_of_record st)
      | ReaderDets st \<Rightarrow> apsnd ReaderDets (MeasureRecordReader_is_end_of_record st)
      | ReaderHits st \<Rightarrow> apsnd ReaderHits (MeasureRecordReader_is_end_of_record st)
      | ReaderR8 st \<Rightarrow> apsnd ReaderR8 (FormatR8_is_end_of_record st))"

definition read_bytes :: "uint8 list \<Rightarrow> reader \<Rightarrow> (error + nat) \<times> uint8 list \<times> reader" where
  "read_bytes data r =
     (case r of
        Reader01 st \<Rightarrow>
          apsnd (apsnd Reader01)
            (MeasureRecordReader_read_bytes Format01_read_bit Format01_is_end_of_record data st)
      | ReaderB8 st \<Rightarrow> apsnd (apsnd ReaderB8) (FormatB8_read_bytes data st)
      | ReaderDets st \<Rightarrow>
          apsnd (apsnd ReaderDets)
            (MeasureRecordReader_read_bytes FormatDets_read_bit
               MeasureRecordReader_is_end_of_record data st)
      | ReaderHits st \<Rightarrow>
          apsnd (apsnd ReaderHits)
            (MeasureRecordReader_read_bytes FormatHits_read_bit
               MeasureRecordReader_is_end_of_record data st)
      | ReaderR8 st \<Rightarrow> apsnd (apsnd ReaderR8) (FormatR8_read_bytes data st))"

definition next_record :: "reader \<Rightarrow> (error + bool) \<times> reader" where
  "next_record r =
     (case r of
        Reader01 st \<Rightarrow> apsnd Reader01 (Format01_next_record st)
      | ReaderB8 st \<Rightarrow> apsnd ReaderB8 (MeasureRecordReader_next_record st)
      | ReaderDets st \<Rightarrow> apsnd ReaderDets (FormatDets_next_record st)
      | ReaderHits st \<Rightarrow> apsnd ReaderHits (FormatHits_next_record st)
      | ReaderR8 st \<Rightarrow> apsnd ReaderR8 (MeasureRecordReader_next_record st))"

definition current_result_type :: "reader \<Rightarrow> int" where
  "current_result_type r =
     (case r of
        ReaderDets st \<Rightarrow> FormatDets_current_result_type st
      | _ \<Rightarrow> ch CHR ''M'')"

subsection \<open>A caller reading bit after bit\<close>

text \<open>\<open>read_bits rb n\<close> calls \<open>rb\<close> \<open>n\<close> times in sequence and stops at the first error.\<close>

fun read_bits ::
  "('s \<Rightarrow> (error + bool) \<times> 's) \<Rightarrow> nat \<Rightarrow> 's \<Rightarrow> (error + bool list) \<times> 's" where
  "read_bits rb 0 st = (Inr [], st)"
| "read_bits rb (Suc n) st =
     (case rb st of
        (Inl e, st1) \<Rightarrow> (Inl e, st1)
      | (Inr b, st1) \<Rightarrow>
          (case read_bits rb n st1 of
             (Inl e, st2) \<Rightarrow> (Inl e, st2)
           | (Inr bs, st2) \<Rightarrow> (Inr (b # bs), st2)))"

section \<open>Properties\<close>

subsection \<open>The stream\<close>

lemma uint_not_EOF [simp]: "uint (c::uint8) \<noteq> - 1"
  using uint_ge_0 [of c] by linarith

lemma getc_EOF_iff: "fst (getc s) = EOF \<longleftrightarrow> s = []"
  by (simp add: getc_def split: list.splits)

subsection \<open>Format 01: \<open>read_bit\<close> and \<open>next_record\<close>\<close>

text \<open>
  Claim C10. In the 01 format every \<^verbatim>\<open>throw\<close> of \<^verbatim>\<open>read_bit\<close> stands before the first
  assignment: when the call fails (end of the stream, a newline or the declared length,
  a character other than 0 and 1) the reader is the one the call started with, no byte
  has been taken from the stream, and the same call fails again with the same error.
\<close>

theorem Format01_read_bit_atomic:
  assumes "Format01_read_bit st = (Inl e, st')"
  shows "st' = st \<and> Format01_read_bit st' = (Inl e, st')
       \<and> (e = EndOfStream \<and> Format01.payload st = EOF
          \<or> e = EndOfRecord \<and> Format01.payload st \<noteq> EOF
               \<and> (Format01.payload st = ch CHR 0x0A
                    \<or> MeasureRecordReader.position st \<ge> bits_per_record st)
          \<or> e = MalformedInput \<and> Format01.payload st \<noteq> EOF
               \<and> Format01.payload st \<noteq> ch CHR 0x0A
               \<and> MeasureRecordReader.position st < bits_per_record st
               \<and> Format01.payload st \<noteq> ch CHR ''0'' \<and> Format01.payload st \<noteq> ch CHR ''1'')"
  using assms
  by (auto simp: Format01_read_bit_def Let_def split: if_splits prod.splits)

theorem Format01_read_bit_atomic_witness:
  "Format01_read_bit
      \<lparr>MeasureRecordReader.position = 1, bits_per_record = 2,
       Format01.inp = [49, 10], Format01.payload = ch CHR ''x''\<rparr>
     = (Inl MalformedInput,
        \<lparr>MeasureRecordReader.position = 1, bits_per_record = 2,
         Format01.inp = [49, 10], Format01.payload = ch CHR ''x''\<rparr>)
   \<and> Format01.inp
        (snd (Format01_read_bit
           \<lparr>MeasureRecordReader.position = 1, bits_per_record = 2,
            Format01.inp = [49, 10], Format01.payload = ch CHR ''x''\<rparr>)) = [49, 10]"
proof -
  let ?st = "\<lparr>MeasureRecordReader.position = 1, bits_per_record = 2,
              Format01.inp = [49, 10], Format01.payload = ch CHR ''x''\<rparr>"
  have h: "Format01_read_bit ?st = (Inl MalformedInput, ?st)"
    by (simp add: Format01_read_bit_def)
  from Format01_read_bit_atomic [OF h] h show ?thesis by simp
qed

lemma Format01_skip_bits_per_record [simp]:
  "bits_per_record (Format01_skip st) = bits_per_record st"
  by (induction st rule: Format01_skip.induct)
     (subst Format01_skip.simps, auto simp: Let_def split: prod.splits)

lemma Format01_skip_stops:
  "Format01.payload (Format01_skip st) = EOF \<or> Format01.payload (Format01_skip st) = ch CHR 0x0A
     \<or> MeasureRecordReader.position (Format01_skip st) \<ge> bits_per_record st"
  by (induction st rule: Format01_skip.induct)
     (subst (1 2 3) Format01_skip.simps, auto simp: Let_def split: prod.splits)

lemma Format01_skip_consumes:
  "\<exists>k. Format01.inp (Format01_skip st) = drop k (Format01.inp st)"
proof (induction st rule: Format01_skip.induct)
  case (1 st)
  show ?case
  proof (cases "Format01.payload st \<noteq> EOF \<and> Format01.payload st \<noteq> ch CHR 0x0A
                  \<and> MeasureRecordReader.position st + 1 < bits_per_record st")
    case True
    let ?st2 = "st\<lparr>MeasureRecordReader.position := MeasureRecordReader.position st + 1,
                   Format01.payload := fst (getc (Format01.inp st)),
                   Format01.inp := snd (getc (Format01.inp st))\<rparr>"
    have eq: "Format01_skip st = Format01_skip ?st2"
      using True by (subst Format01_skip.simps) (simp add: Let_def split: prod.splits)
    from True
      "1.IH" [of "st\<lparr>MeasureRecordReader.position := MeasureRecordReader.position st + 1\<rparr>"
                 "getc (Format01.inp st)" "fst (getc (Format01.inp st))"
                 "snd (getc (Format01.inp st))"]
    obtain k where "Format01.inp (Format01_skip ?st2) = drop k (snd (getc (Format01.inp st)))"
      by auto
    with eq have "Format01.inp (Format01_skip st) = drop (Suc k) (Format01.inp st)
        \<or> Format01.inp (Format01_skip st) = drop k (Format01.inp st)"
      by (auto simp: getc_def drop_Suc split: list.splits)
    then show ?thesis by blast
  next
    case False
    then have "Format01.inp (Format01_skip st) = drop 0 (Format01.inp st)"
      by (subst Format01_skip.simps) (auto simp: Let_def)
    then show ?thesis by blast
  qed
qed

text \<open>
  With the cursor within the record, the loop leaves it beyond the declared length only
  when the whole length has been read and the next character is not a terminator.
\<close>

lemma Format01_skip_too_long:
  "MeasureRecordReader.position st \<le> bits_per_record st \<Longrightarrow>
   MeasureRecordReader.position (Format01_skip st) > bits_per_record st \<longleftrightarrow>
     (Format01.payload st \<noteq> EOF \<and> Format01.payload st \<noteq> ch CHR 0x0A
      \<and> MeasureRecordReader.position st = bits_per_record st)"
  by (induction st rule: Format01_skip.induct)
     (subst Format01_skip.simps, auto simp: Let_def split: prod.splits)

lemma Format01_skip_frame:
  "Format01_skip st =
     st\<lparr>MeasureRecordReader.position := MeasureRecordReader.position (Format01_skip st),
        Format01.payload := Format01.payload (Format01_skip st),
        Format01.inp := Format01.inp (Format01_skip st)\<rparr>"
proof (induction st rule: Format01_skip.induct)
  case (1 st)
  show ?case
  proof (cases "Format01.payload st \<noteq> EOF \<and> Format01.payload st \<noteq> ch CHR 0x0A
                  \<and> MeasureRecordReader.position st + 1 < bits_per_record st")
    case True
    let ?st2 = "st\<lparr>MeasureRecordReader.position := MeasureRecordReader.position st + 1,
                   Format01.payload := fst (getc (Format01.inp st)),
                   Format01.inp := snd (getc (Format01.inp st))\<rparr>"
    have eq: "Format01_skip st = Format01_skip ?st2"
      using True by (subst Format01_skip.simps) (simp add: Let_def split: prod.splits)
    from True
      "1.IH" [of "st\<lparr>MeasureRecordReader.position := MeasureRecordReader.position st + 1\<rparr>"
                 "getc (Format01.inp st)" "fst (getc (Format01.inp st))"
                 "snd (getc (Format01.inp st))"]
    have "Format01_skip ?st2 =
            ?st2\<lparr>MeasureRecordReader.position := MeasureRecordReader.position (Format01_skip ?st2),
                 Format01.payload := Format01.payload (Format01_skip ?st2),
                 Format01.inp := Format01.inp (Format01_skip ?st2)\<rparr>"
      by simp
    then show ?thesis unfolding eq by simp
  next
    case False
    then show ?thesis
      by (subst (1 2 3 4) Format01_skip.simps) (auto simp: Let_def)
  qed
qed

lemma uint_eq_newline_iff: "uint (b::uint8) = 10 \<longleftrightarrow> b = 0x0A"
proof
  assume "uint b = 10"
  then have "word_of_int (uint b) = (word_of_int 10 :: uint8)" by simp
  then show "b = 0x0A" by simp
next
  assume "b = 0x0A"
  then show "uint b = 10" by simp
qed

text \<open>
  The characters the loop of \<^verbatim>\<open>next_record\<close> takes from the stream: none when the
  current character ends the record or the cursor is at the last bit; otherwise those
  up to the first newline and this newline, but not more than the bits that were left
  after the current one.
\<close>

lemma Format01_skip_inp:
  "Format01.inp (Format01_skip st) =
     (if Format01.payload st \<noteq> EOF \<and> Format01.payload st \<noteq> ch CHR 0x0A
         \<and> MeasureRecordReader.position st + 1 < bits_per_record st
      then drop (min (length (takeWhile (\<lambda>b. b \<noteq> 0x0A) (Format01.inp st)) + 1)
                     (bits_per_record st - MeasureRecordReader.position st - 1))
                (Format01.inp st)
      else Format01.inp st)"
proof (induction st rule: Format01_skip.induct)
  case (1 st)
  show ?case
  proof (cases "Format01.payload st \<noteq> EOF \<and> Format01.payload st \<noteq> ch CHR 0x0A
                  \<and> MeasureRecordReader.position st + 1 < bits_per_record st")
    case True
    let ?st2 = "st\<lparr>MeasureRecordReader.position := MeasureRecordReader.position st + 1,
                   Format01.payload := fst (getc (Format01.inp st)),
                   Format01.inp := snd (getc (Format01.inp st))\<rparr>"
    have eq: "Format01_skip st = Format01_skip ?st2"
      using True by (subst Format01_skip.simps) (simp add: Let_def split: prod.splits)
    from True
      "1.IH" [of "st\<lparr>MeasureRecordReader.position := MeasureRecordReader.position st + 1\<rparr>"
                 "getc (Format01.inp st)" "fst (getc (Format01.inp st))"
                 "snd (getc (Format01.inp st))"]
    have ih: "Format01.inp (Format01_skip ?st2) =
     (if Format01.payload ?st2 \<noteq> EOF \<and> Format01.payload ?st2 \<noteq> ch CHR 0x0A
         \<and> MeasureRecordReader.position ?st2 + 1 < bits_per_record ?st2
      then drop (min (length (takeWhile (\<lambda>b. b \<noteq> 0x0A) (Format01.inp ?st2)) + 1)
                     (bits_per_record ?st2 - MeasureRecordReader.position ?st2 - 1))
                (Format01.inp ?st2)
      else Format01.inp ?st2)"
      by simp
    show ?thesis
    proof (cases "Format01.inp st")
      case Nil
      with True ih show ?thesis unfolding eq by (simp add: getc_def)
    next
      case (Cons b s')
      show ?thesis
      proof (cases "b = 0x0A")
        case nl: True
        from True have "Suc (MeasureRecordReader.position st) < bits_per_record st" by simp
        then have "min (Suc 0) (bits_per_record st - Suc (MeasureRecordReader.position st))
                          = Suc 0"
          by arith
        with True ih Cons nl show ?thesis unfolding eq by (simp add: getc_def)
      next
        case False
        then have u: "uint b \<noteq> 10" by (simp add: uint_eq_newline_iff)
        define p where "p = MeasureRecordReader.position st"
        define n where "n = bits_per_record st"
        define t where "t = takeWhile (\<lambda>b. b \<noteq> 0x0A) s'"
        from True have lt: "p + 1 < n" by (simp add: p_def n_def)
        from ih Cons u have ih': "Format01.inp (Format01_skip ?st2) =
            (if p + 2 < n then drop (min (length t + 1) (n - p - 2)) s' else s')"
          by (simp add: getc_def p_def n_def t_def)
        have "(if p + 2 < n then drop (min (length t + 1) (n - p - 2)) s' else s')
                = drop (min (length t + 2) (n - p - 1)) (b # s')"
        proof (cases "p + 2 < n")
          case True
          then have "min (length t + 2) (n - p - 1) = Suc (min (length t + 1) (n - p - 2))"
            by arith
          with True show ?thesis by simp
        next
          case False
          with lt have "min (length t + 2) (n - p - 1) = Suc 0" by arith
          with False show ?thesis by simp
        qed
        with ih' have "Format01.inp (Format01_skip ?st2)
                         = drop (min (length t + 2) (n - p - 1)) (b # s')"
          by simp
        moreover have "takeWhile (\<lambda>b. b \<noteq> 0x0A) (Format01.inp st) = b # t"
          using Cons False by (simp add: t_def)
        ultimately show ?thesis
          unfolding eq using True Cons by (simp add: p_def n_def)
      qed
    qed
  next
    case False
    then show ?thesis
      by (subst Format01_skip.simps) (auto simp: Let_def)
  qed
qed

lemma getc_cases: "getc s = (case s of [] \<Rightarrow> EOF | c # cs \<Rightarrow> uint c, tl s)"
  by (cases s) (simp_all add: getc_def)

text \<open>
  Claim C6. In the 01 format \<^verbatim>\<open>next_record\<close>, called with the cursor within the
  record, does the following.
  \<^item> When the cursor is at the declared length and the current character is neither a
    newline nor the end of the stream, the skipped distance exceeds the record length:
    it raises the error "Record too long" (a \<^verbatim>\<open>std::runtime_error\<close>), having taken no
    character from the stream.
  \<^item> Otherwise it consumes characters until a newline, the end of the stream or the
    declared length is reached: none when the current character is a newline or the end
    of the stream; else the characters up to the first newline and this newline, but at
    most as many as bits were left after the current one. Then it sets the cursor to 0,
    reads one more character, and returns true exactly when there was one, that is when
    the stream was not exhausted.
\<close>

theorem Format01_next_record_spec:
  assumes "MeasureRecordReader.position st \<le> bits_per_record st"
  shows "Format01_next_record st =
     (if Format01.payload st \<noteq> EOF \<and> Format01.payload st \<noteq> ch CHR 0x0A
         \<and> MeasureRecordReader.position st = bits_per_record st
      then (Inl MalformedInput,
            st\<lparr>MeasureRecordReader.position := MeasureRecordReader.position st + 1\<rparr>)
      else
        (let k = (if Format01.payload st \<noteq> EOF \<and> Format01.payload st \<noteq> ch CHR 0x0A
                  then min (length (takeWhile (\<lambda>b. b \<noteq> 0x0A) (Format01.inp st)) + 1)
                           (bits_per_record st - MeasureRecordReader.position st - 1)
                  else 0);
             rest = drop k (Format01.inp st)
         in (Inr (rest \<noteq> []),
             st\<lparr>MeasureRecordReader.position := 0,
                Format01.payload := (case rest of [] \<Rightarrow> EOF | c # cs \<Rightarrow> uint c),
                Format01.inp := tl rest\<rparr>)))"
proof (cases "Format01.payload st \<noteq> EOF \<and> Format01.payload st \<noteq> ch CHR 0x0A
         \<and> MeasureRecordReader.position st = bits_per_record st")
  case True
  then have "Format01_skip st
               = st\<lparr>MeasureRecordReader.position := MeasureRecordReader.position st + 1\<rparr>"
    by (subst Format01_skip.simps) (simp add: Let_def)
  with True show ?thesis
    by (simp add: Format01_next_record_def Let_def)
next
  case False
  with Format01_skip_too_long [OF assms]
  have le: "\<not> bits_per_record st < MeasureRecordReader.position (Format01_skip st)"
    by simp
  define k where
    "k = (if Format01.payload st \<noteq> EOF \<and> Format01.payload st \<noteq> ch CHR 0x0A
          then min (length (takeWhile (\<lambda>b. b \<noteq> 0x0A) (Format01.inp st)) + 1)
                   (bits_per_record st - MeasureRecordReader.position st - 1)
          else 0)"
  define rest where "rest = drop k (Format01.inp st)"
  have i: "Format01.inp (Format01_skip st) = rest"
  proof (cases "Format01.payload st \<noteq> EOF \<and> Format01.payload st \<noteq> ch CHR 0x0A")
    case t: True
    with False assms have "MeasureRecordReader.position st < bits_per_record st" by simp
    then have "MeasureRecordReader.position st + 1 < bits_per_record st
               \<or> bits_per_record st - MeasureRecordReader.position st - 1 = 0"
      by arith
    with t show ?thesis
      unfolding rest_def k_def Format01_skip_inp by auto
  next
    case f: False
    then show ?thesis
      unfolding rest_def k_def Format01_skip_inp by auto
  qed
  have b: "bits_per_record (Format01_skip st) = bits_per_record st"
    by (subst Format01_skip_frame) simp
  have fr: "(Format01_skip st)\<lparr>MeasureRecordReader.position := 0,
              Format01.payload := fst (getc rest), Format01.inp := snd (getc rest)\<rparr>
           = st\<lparr>MeasureRecordReader.position := 0,
              Format01.payload := fst (getc rest), Format01.inp := snd (getc rest)\<rparr>"
    by (subst Format01_skip_frame) simp
  have "Format01_next_record st =
          (Inr (fst (getc rest) \<noteq> EOF),
           (Format01_skip st)\<lparr>MeasureRecordReader.position := 0,
              Format01.payload := fst (getc rest), Format01.inp := snd (getc rest)\<rparr>)"
    using le unfolding Format01_next_record_def Let_def b i
    by (simp add: case_prod_beta)
  then have "Format01_next_record st =
          (Inr (rest \<noteq> []),
           st\<lparr>MeasureRecordReader.position := 0,
              Format01.payload := (case rest of [] \<Rightarrow> EOF | c # cs \<Rightarrow> uint c),
              Format01.inp := tl rest\<rparr>)"
    unfolding fr getc_EOF_iff by (simp add: getc_cases)
  with False show ?thesis
    unfolding k_def [symmetric] Let_def rest_def [symmetric]
    by (simp only: if_False)
qed

theorem Format01_next_record_spec_witness:
  "Format01_next_record
      \<lparr>MeasureRecordReader.position = 0, bits_per_record = 3,
       Format01.inp = [49, 10, 49, 48, 49, 10], Format01.payload = 48\<rparr>
     = (Inr True,
        \<lparr>MeasureRecordReader.position = 0, bits_per_record = 3,
         Format01.inp = [48, 49, 10], Format01.payload = 49\<rparr>)
   \<and> Format01_next_record
      \<lparr>MeasureRecordReader.position = 2, bits_per_record = 2,
       Format01.inp = [10], Format01.payload = 49\<rparr>
     = (Inl MalformedInput,
        \<lparr>MeasureRecordReader.position = 3, bits_per_record = 2,
         Format01.inp = [10], Format01.payload = 49\<rparr>)
   \<and> Format01_next_record
      \<lparr>MeasureRecordReader.position = 2, bits_per_record = 2,
       Format01.inp = [], Format01.payload = 10\<rparr>
     = (Inr False,
        \<lparr>MeasureRecordReader.position = 0, bits_per_record = 2,
         Format01.inp = [], Format01.payload = EOF\<rparr>)"
proof -
  let ?a = "\<lparr>MeasureRecordReader.position = 0, bits_per_record = 3,
             Format01.inp = [49, 10, 49, 48, 49, 10], Format01.payload = 48\<rparr>"
  let ?b = "\<lparr>MeasureRecordReader.position = 2, bits_per_record = 2,
             Format01.inp = [10], Format01.payload = 49\<rparr>"
  let ?c = "\<lparr>MeasureRecordReader.position = 2, bits_per_record = 2,
             Format01.inp = [], Format01.payload = 10\<rparr>"
  from Format01_next_record_spec [of ?a] Format01_next_record_spec [of ?b]
    Format01_next_record_spec [of ?c]
  show ?thesis by simp
qed

subsection \<open>Format Hits: the record \<open>1,3,7\<close>\<close>

text \<open>
  Claim C8. A Hits reader made for 8 bits per record on the stream \<open>1,3,7\<close> and a
  newline returns the bits 0,1,0,1,0,0,0,1 from eight calls of \<^verbatim>\<open>read_bit\<close>; the
  stream is then exhausted, and \<^verbatim>\<open>next_record\<close> returns false and raises no error.
\<close>

theorem FormatHits_1_3_7:
  "case make (map of_char ''1,3,7'' @ [0x0A]) SAMPLE_FORMAT_HITS 8 0 0 of
     Inl e \<Rightarrow> False
   | Inr r0 \<Rightarrow>
       (case read_bits read_bit 8 r0 of
          (res, r1) \<Rightarrow>
            res = Inr [False, True, False, True, False, False, False, True]
            \<and> fst (next_record r1) = Inr False)"
  by code_simp

subsection \<open>The sparse formats: the indices read from the stream\<close>


lemma long_wrap_id: "- (2 ^ 63) \<le> x \<Longrightarrow> x < 2 ^ 63 \<Longrightarrow> long_wrap x = x"
  unfolding long_wrap_def by (simp add: mod_pos_pos_trivial)

lemma size_t_of_long_id: "0 \<le> x \<Longrightarrow> x < 2 ^ 63 \<Longrightarrow> size_t_of_long x = nat x"
  unfolding size_t_of_long_def by (simp add: mod_pos_pos_trivial)


lemma FormatHits_update_next_hit_parsed:
  assumes "read_unsigned_int (FormatHits.inp st) (next_hit st) = (True, rest, v, sep)"
  shows "FormatHits_update_next_hit st =
     (if (sep \<noteq> ch CHR '','' \<and> sep \<noteq> ch CHR 0x0A) \<or> v < FormatHits.position st
           \<or> size_t_of_long v \<ge> bits_per_record st
      then Inl MalformedInput else Inr (),
      st\<lparr>FormatHits.inp := rest, next_hit := v, FormatHits.separator := sep\<rparr>)"
  using assms by (simp add: FormatHits_update_next_hit_def Let_def)

lemma FormatDets_update_next_shot_parsed:
  assumes i: "FormatDets.inp st = c # s"
    and t: "uint c = ch CHR ''M'' \<or> uint c = ch CHR ''D'' \<or> uint c = ch CHR ''L''"
    and r: "read_unsigned_int s (next_shot st) = (True, rest, v, sep)"
    and p: "sep = ch CHR '' '' \<or> sep = ch CHR 0x0A"
  shows "FormatDets_update_next_shot st =
     (let st2 = st\<lparr>FormatDets.inp := rest, next_shot := v, FormatDets.separator := sep\<rparr>;
          st3 = (if uint c \<noteq> result_type st
                 then st2\<lparr>next_shot := long_wrap (v + FormatDets.position st),
                          result_type := uint c\<rparr>
                 else st2)
      in (if next_shot st3 < FormatDets.position st
             \<or> size_t_of_long (next_shot st3) \<ge> bits_per_record st
          then Inl MalformedInput else Inr (), st3))"
proof -
  have g: "getc (FormatDets.inp st) = (uint c, s)"
    by (simp add: getc_def i)
  show ?thesis
    unfolding FormatDets_update_next_shot_def g
    using t p
    by (elim disjE) (simp_all add: char_of_int_cast_def r Let_def)
qed


text \<open>
  Claim C4. In the Dets format, let a token be read: a tag \<open>M\<close>, \<open>D\<close> or \<open>L\<close>, an
  index \<open>v\<close> and a separator (a space or a newline). When the tag differs from the
  current \<^verbatim>\<open>result_type\<close>, the index is rebased by the cursor
  (\<^verbatim>\<open>next_shot += position\<close>, in the arithmetic of \<^verbatim>\<open>long\<close>) and the tag becomes the
  current one; when the tag is the current one, the index is taken as it is. The
  ascending check and the range check are made afterwards, on the index so obtained.
\<close>

theorem FormatDets_update_next_shot_rebase:
  assumes "FormatDets.inp st = c # s"
    and "uint c = ch CHR ''M'' \<or> uint c = ch CHR ''D'' \<or> uint c = ch CHR ''L''"
    and "read_unsigned_int s (next_shot st) = (True, rest, v, sep)"
    and "sep = ch CHR '' '' \<or> sep = ch CHR 0x0A"
    and "FormatDets_update_next_shot st = (r, st')"
  shows "next_shot st' = (if uint c \<noteq> result_type st
                          then long_wrap (v + FormatDets.position st) else v)
       \<and> result_type st' = uint c
       \<and> FormatDets.position st' = FormatDets.position st
       \<and> r = (if next_shot st' < FormatDets.position st
                  \<or> size_t_of_long (next_shot st') \<ge> bits_per_record st
               then Inl MalformedInput else Inr ())"
  using assms(5) unfolding FormatDets_update_next_shot_parsed [OF assms(1-4)]
  by (auto simp: Let_def)

theorem FormatDets_update_next_shot_rebase_witness:
  "read_unsigned_int [48, 10] 2 = (True, [], 0, 10)
   \<and> FormatDets_update_next_shot
        \<lparr>MeasureRecordReader.position = 0, bits_per_record = 4, FormatDets.inp = [68, 48, 10],
         result_type = 77, separator = 32, next_shot = 2, position = 3\<rparr>
     = (Inr (),
        \<lparr>MeasureRecordReader.position = 0, bits_per_record = 4, FormatDets.inp = [],
         result_type = 68, separator = 10, next_shot = 3, position = 3\<rparr>)
   \<and> long_wrap (0 + 3) = 3"
proof -
  let ?st = "\<lparr>MeasureRecordReader.position = 0, bits_per_record = 4,
              FormatDets.inp = [68, 48, 10],
              result_type = 77, separator = 32, next_shot = 2, position = 3\<rparr>"
  let ?st' = "\<lparr>MeasureRecordReader.position = 0, bits_per_record = 4, FormatDets.inp = [],
               result_type = 68, separator = 10, next_shot = 3, position = 3\<rparr>"
  have r: "read_unsigned_int [48, 10] (next_shot ?st) = (True, [], 0, 10)"
    by (simp add: read_unsigned_int_def read_digits.simps getc_def isdigit_def long_wrap_def)
  have u: "FormatDets_update_next_shot ?st = (Inr (), ?st')"
    by (simp add: FormatDets_update_next_shot_def read_unsigned_int_def read_digits.simps
          getc_def isdigit_def long_wrap_def char_of_int_cast_def size_t_of_long_def)
  have w: "long_wrap (0 + 3) = 3"
    by (simp add: long_wrap_def)
  from FormatDets_update_next_shot_rebase [OF _ _ r _ u, of 68] r u w show ?thesis
    by simp
qed

text \<open>
  The number a sequence of decimal digits writes, to compare \<^verbatim>\<open>read_unsigned_int\<close>
  with: \<open>decimal_from a ds\<close> continues the number \<open>a\<close> with the digits \<open>ds\<close>.
\<close>

definition is_digit :: "uint8 \<Rightarrow> bool" where
  "is_digit c \<longleftrightarrow> 0x30 \<le> c \<and> c \<le> 0x39"

fun decimal_from :: "nat \<Rightarrow> uint8 list \<Rightarrow> nat" where
  "decimal_from a [] = a"
| "decimal_from a (d # ds) = decimal_from (10 * a + (unat d - 48)) ds"

definition decimal :: "uint8 list \<Rightarrow> nat" where
  "decimal ds = decimal_from 0 ds"

lemma isdigit_uint: "isdigit (uint c) \<longleftrightarrow> is_digit c"
  by (simp add: isdigit_def is_digit_def word_le_def)

lemma uint_unat8: "uint (d::uint8) = int (unat d)"
  by simp

lemma is_digit_value: "is_digit d \<Longrightarrow> uint d - 48 = int (unat d - 48) \<and> unat d - 48 < 10"
proof -
  assume "is_digit d"
  then have "48 \<le> uint d" "uint d \<le> 57"
    by (simp_all add: is_digit_def word_le_def)
  then have "48 \<le> unat d" "unat d \<le> 57"
    unfolding uint_unat8 by linarith+
  then show ?thesis
    unfolding uint_unat8 by (simp add: of_nat_diff)
qed

lemma small_mult: "10 * a + b < 2 ^ 63 \<Longrightarrow> int a * 10 < 2 ^ 63"
  by simp

lemma small_int: "(m::nat) < 2 ^ 63 \<Longrightarrow> int m < 2 ^ 63"
  by simp

lemma read_digits_step:
  assumes d: "is_digit d" and small: "10 * a + (unat d - 48) < 2 ^ 63"
  shows "read_digits s (int a) (uint d)
           = read_digits (snd (getc s)) (int (10 * a + (unat d - 48))) (fst (getc s))"
proof -
  from is_digit_value [OF d] have dv: "uint d - 48 = int (unat d - 48)" by simp
  have w1: "long_wrap (int a * 10) = int a * 10"
    using small_mult [OF small] by (intro long_wrap_id) simp_all
  have s: "int a * 10 + int (unat d - 48) = int (10 * a + (unat d - 48))" by simp
  have "long_wrap (int (10 * a + (unat d - 48))) = int (10 * a + (unat d - 48))"
    using small_int [OF small] by (intro long_wrap_id) simp_all
  then have w2: "long_wrap (int a * 10 + int (unat d - 48)) = int (10 * a + (unat d - 48))"
    by (simp only: s)
  from d have dg: "isdigit (uint d)" by (simp add: isdigit_uint)
  have "read_digits s (int a) (uint d)
          = read_digits (snd (getc s)) (long_wrap (long_wrap (int a * 10) + (uint d - 48)))
              (fst (getc s))"
    using dg by (subst read_digits.simps) (simp add: Let_def case_prod_beta)
  then show ?thesis
    by (simp only: w1 dv w2)
qed

lemma decimal_from_ge: "a \<le> decimal_from a ds"
proof (induction ds arbitrary: a)
  case Nil
  show ?case by simp
next
  case (Cons d ds)
  have "a \<le> 10 * a + (unat d - 48)" by simp
  also have "\<dots> \<le> decimal_from (10 * a + (unat d - 48)) ds" by (rule Cons.IH)
  finally show ?case by simp
qed

lemma read_digits_decimal:
  "is_digit d \<Longrightarrow> list_all is_digit ds \<Longrightarrow> \<not> isdigit (fst (getc rest)) \<Longrightarrow>
   decimal_from a (d # ds) < 2 ^ 63 \<Longrightarrow>
     read_digits (ds @ rest) (int a) (uint d)
       = (snd (getc rest), int (decimal_from a (d # ds)), fst (getc rest))"
proof (induction ds arbitrary: a d)
  case Nil
  from Nil.prems(4) have small: "10 * a + (unat d - 48) < 2 ^ 63" by simp
  have "read_digits ([] @ rest) (int a) (uint d)
          = read_digits (snd (getc rest)) (int (10 * a + (unat d - 48))) (fst (getc rest))"
    using read_digits_step [OF Nil.prems(1) small, of rest] by simp
  also have "\<dots> = (snd (getc rest), int (10 * a + (unat d - 48)), fst (getc rest))"
    using Nil.prems(3) by (subst read_digits.simps) simp
  finally show ?case by simp
next
  case (Cons e ds)
  from Cons.prems(4) have big: "decimal_from (10 * a + (unat d - 48)) (e # ds) < 2 ^ 63"
    by simp
  from decimal_from_ge [of "10 * a + (unat d - 48)" "e # ds"] big
  have small: "10 * a + (unat d - 48) < 2 ^ 63" by (rule le_less_trans)
  from Cons.prems(2) have e: "is_digit e" and ds: "list_all is_digit ds" by simp_all
  have "read_digits ((e # ds) @ rest) (int a) (uint d)
          = read_digits (ds @ rest) (int (10 * a + (unat d - 48))) (uint e)"
    using read_digits_step [OF Cons.prems(1) small, of "(e # ds) @ rest"]
    by (simp add: getc_def)
  also have "\<dots> = (snd (getc rest), int (decimal_from (10 * a + (unat d - 48)) (e # ds)),
                   fst (getc rest))"
    by (rule Cons.IH [OF e ds Cons.prems(3) big])
  finally show ?case by simp
qed

lemma read_unsigned_int_decimal:
  assumes "ds \<noteq> []" and "list_all is_digit ds" and "\<not> isdigit (fst (getc rest))"
    and "decimal ds < 2 ^ 63"
  shows "read_unsigned_int (ds @ rest) v0
           = (True, snd (getc rest), int (decimal ds), fst (getc rest))"
proof -
  from assms(1) obtain d ds' where ds: "ds = d # ds'" by (cases ds) auto
  with assms(2) have d: "is_digit d" and ds': "list_all is_digit ds'" by simp_all
  from assms(4) have "decimal_from 0 (d # ds') < 2 ^ 63" by (simp add: decimal_def ds)
  from read_digits_decimal [OF d ds' assms(3) this]
  have "read_digits (ds' @ rest) 0 (uint d)
          = (snd (getc rest), int (decimal ds), fst (getc rest))"
    by (simp add: decimal_def ds)
  with d show ?thesis
    by (simp add: read_unsigned_int_def ds getc_def isdigit_uint)
qed

lemma read_unsigned_int_no_digit:
  "\<not> isdigit (fst (getc s)) \<Longrightarrow> read_unsigned_int s v0 = (False, snd (getc s), v0, fst (getc s))"
  by (simp add: read_unsigned_int_def case_prod_beta)

lemma FormatHits_update_next_hit_decimal:
  assumes i: "FormatHits.inp h = ds @ rest" and ne: "ds \<noteq> []" and dg: "list_all is_digit ds"
    and nd: "\<not> isdigit (fst (getc rest))" and small: "decimal ds < 2 ^ 63"
    and p: "0 \<le> FormatHits.position h"
  shows "FormatHits_update_next_hit h =
     (if (fst (getc rest) = ch CHR '','' \<or> fst (getc rest) = ch CHR 0x0A)
          \<and> FormatHits.position h \<le> int (decimal ds) \<and> decimal ds < bits_per_record h
      then Inr () else Inl MalformedInput,
      h\<lparr>FormatHits.inp := snd (getc rest), next_hit := int (decimal ds),
         FormatHits.separator := fst (getc rest)\<rparr>)"
proof -
  from read_unsigned_int_decimal [OF ne dg nd small, of "next_hit h"] i
  have r: "read_unsigned_int (FormatHits.inp h) (next_hit h)
             = (True, snd (getc rest), int (decimal ds), fst (getc rest))"
    by simp
  have sz: "size_t_of_long (int (decimal ds)) = decimal ds"
    using small_int [OF small] by (simp add: size_t_of_long_id)
  show ?thesis
    unfolding FormatHits_update_next_hit_parsed [OF r] sz by auto
qed

lemma FormatHits_update_next_hit_no_digit:
  assumes "\<not> isdigit (fst (getc (FormatHits.inp h)))"
  shows "FormatHits_update_next_hit h =
     (if fst (getc (FormatHits.inp h)) = ch CHR 0x0A \<or> fst (getc (FormatHits.inp h)) = EOF
      then Inr () else Inl MalformedInput,
      h\<lparr>FormatHits.inp := snd (getc (FormatHits.inp h)),
         FormatHits.separator := fst (getc (FormatHits.inp h))\<rparr>)"
  using assms
  by (simp add: FormatHits_update_next_hit_def read_unsigned_int_no_digit Let_def)

lemma long_wrap_high:
  assumes "2 ^ 63 \<le> x" and "x < 2 ^ 64"
  shows "long_wrap x = x - 2 ^ 64"
proof -
  have "(x + 2 ^ 63) mod 2 ^ 64 = (x + 2 ^ 63 - 2 ^ 64) mod 2 ^ 64"
    by (simp only: minus_mod_self2)
  also have "\<dots> = x + 2 ^ 63 - 2 ^ 64"
    using assms by (intro mod_pos_pos_trivial) simp_all
  finally show ?thesis
    unfolding long_wrap_def by simp
qed

lemma long_wrap_sum:
  assumes "0 \<le> p" and "p \<le> int n" and "n \<le> SSIZE_MAX" and "v < 2 ^ 63"
  shows "(p \<le> long_wrap (int v + p) \<and> size_t_of_long (long_wrap (int v + p)) < n)
           \<longleftrightarrow> int v + p < int n"
    and "int v + p < int n \<Longrightarrow> long_wrap (int v + p) = int v + p"
proof -
  from assms(3) have n: "int n < 2 ^ 63" by (simp add: SSIZE_MAX_def)
  from assms(4) have v: "int v < 2 ^ 63" by simp
  show "int v + p < int n \<Longrightarrow> long_wrap (int v + p) = int v + p"
    using assms(1) n by (intro long_wrap_id) simp_all
  show "(p \<le> long_wrap (int v + p) \<and> size_t_of_long (long_wrap (int v + p)) < n)
           \<longleftrightarrow> int v + p < int n"
  proof (cases "int v + p < 2 ^ 63")
    case True
    with assms(1) have w: "long_wrap (int v + p) = int v + p"
      by (intro long_wrap_id) simp_all
    have "size_t_of_long (int v + p) = nat (int v + p)"
      using True assms(1) by (intro size_t_of_long_id) simp_all
    with assms(1) show ?thesis unfolding w by auto
  next
    case False
    from assms(2) n v have "int v + p < 2 ^ 64" by simp
    with False have "long_wrap (int v + p) = int v + p - 2 ^ 64"
      by (intro long_wrap_high) simp_all
    with False assms(2) n v show ?thesis by simp
  qed
qed

lemma FormatDets_update_next_shot_decimal:
  assumes i: "FormatDets.inp d = c # ds @ rest"
    and t: "c = 0x4D \<or> c = 0x44 \<or> c = 0x4C"
    and ne: "ds \<noteq> []" and dg: "list_all is_digit ds"
    and sp: "fst (getc rest) = ch CHR '' '' \<or> fst (getc rest) = ch CHR 0x0A"
    and small: "decimal ds < 2 ^ 63"
    and p: "0 \<le> FormatDets.position d" "FormatDets.position d \<le> int (bits_per_record d)"
    and n: "bits_per_record d \<le> SSIZE_MAX"
  shows "FormatDets_update_next_shot d =
     (if uint c = result_type d
      then (if FormatDets.position d \<le> int (decimal ds) \<and> decimal ds < bits_per_record d
            then Inr () else Inl MalformedInput,
            d\<lparr>FormatDets.inp := snd (getc rest), next_shot := int (decimal ds),
               FormatDets.separator := fst (getc rest)\<rparr>)
      else (if int (decimal ds) + FormatDets.position d < int (bits_per_record d)
            then Inr () else Inl MalformedInput,
            d\<lparr>FormatDets.inp := snd (getc rest),
               next_shot := long_wrap (int (decimal ds) + FormatDets.position d),
               FormatDets.separator := fst (getc rest), result_type := uint c\<rparr>))"
proof -
  from sp have nd: "\<not> isdigit (fst (getc rest))" by (auto simp: isdigit_def)
  from read_unsigned_int_decimal [OF ne dg nd small, of "next_shot d"]
  have r: "read_unsigned_int (ds @ rest) (next_shot d)
             = (True, snd (getc rest), int (decimal ds), fst (getc rest))" .
  from t have t': "uint c = ch CHR ''M'' \<or> uint c = ch CHR ''D'' \<or> uint c = ch CHR ''L''"
    by auto
  have sz: "size_t_of_long (int (decimal ds)) = decimal ds"
    using small_int [OF small] by (simp add: size_t_of_long_id)
  note w = long_wrap_sum [OF p n small]
  show ?thesis
  proof (cases "uint c = result_type d")
    case True
    then show ?thesis
      unfolding FormatDets_update_next_shot_parsed [OF i t' r sp]
      by (auto simp: Let_def sz)
  next
    case False
    with w(1) show ?thesis
      unfolding FormatDets_update_next_shot_parsed [OF i t' r sp]
      by (auto simp: Let_def)
  qed
qed

text \<open>
  Claim C7, as amended. An index written in the stream in decimal digits that fits a
  \<^verbatim>\<open>long\<close> (it is below \<open>2^63\<close>) is read as the number it writes. In the Hits format
  such an index, followed by a comma or a newline, is accepted exactly when it is at
  least the cursor and less than \<^verbatim>\<open>bits_per_record\<close>; otherwise \<^verbatim>\<open>update_next_hit\<close>
  raises a \<^verbatim>\<open>std::runtime_error\<close> (malformed input), and \<^verbatim>\<open>next_hit\<close> is the index
  read, not a clamped one. In the Dets format, for a token made of a tag \<open>M\<close>, \<open>D\<close> or
  \<open>L\<close>, such an index and a space or a newline, the two checks are made after the
  rebasing of claim C4: with the current tag the index is accepted exactly when it is at
  least the cursor and less than \<^verbatim>\<open>bits_per_record\<close>; with another tag it is accepted
  exactly when the index plus the cursor is less than \<^verbatim>\<open>bits_per_record\<close>, so that
  there the index itself may be less than the cursor. An index of \<open>2^63\<close> or more
  overflows the \<^verbatim>\<open>long\<close> it is read into; nothing is stated about it.
\<close>

theorem sparse_index_checked:
  "(FormatHits.inp h = ds @ rest \<and> ds \<noteq> [] \<and> list_all is_digit ds
      \<and> \<not> isdigit (fst (getc rest)) \<and> decimal ds < 2 ^ 63
      \<and> 0 \<le> FormatHits.position h \<longrightarrow>
      FormatHits_update_next_hit h =
        (if (fst (getc rest) = ch CHR '','' \<or> fst (getc rest) = ch CHR 0x0A)
             \<and> FormatHits.position h \<le> int (decimal ds) \<and> decimal ds < bits_per_record h
         then Inr () else Inl MalformedInput,
         h\<lparr>FormatHits.inp := snd (getc rest), next_hit := int (decimal ds),
            FormatHits.separator := fst (getc rest)\<rparr>))
   \<and> (FormatDets.inp d = c # ds' @ rest' \<and> (c = 0x4D \<or> c = 0x44 \<or> c = 0x4C)
      \<and> ds' \<noteq> [] \<and> list_all is_digit ds'
      \<and> (fst (getc rest') = ch CHR '' '' \<or> fst (getc rest') = ch CHR 0x0A)
      \<and> decimal ds' < 2 ^ 63
      \<and> 0 \<le> FormatDets.position d \<and> FormatDets.position d \<le> int (bits_per_record d)
      \<and> bits_per_record d \<le> SSIZE_MAX \<longrightarrow>
      FormatDets_update_next_shot d =
        (if uint c = result_type d
         then (if FormatDets.position d \<le> int (decimal ds') \<and> decimal ds' < bits_per_record d
               then Inr () else Inl MalformedInput,
               d\<lparr>FormatDets.inp := snd (getc rest'), next_shot := int (decimal ds'),
                  FormatDets.separator := fst (getc rest')\<rparr>)
         else (if int (decimal ds') + FormatDets.position d < int (bits_per_record d)
               then Inr () else Inl MalformedInput,
               d\<lparr>FormatDets.inp := snd (getc rest'),
                  next_shot := long_wrap (int (decimal ds') + FormatDets.position d),
                  FormatDets.separator := fst (getc rest'), result_type := uint c\<rparr>)))"
  by (intro conjI impI)
     (blast intro: FormatHits_update_next_hit_decimal, 
      blast intro: FormatDets_update_next_shot_decimal)

theorem sparse_index_checked_witness:
  "FormatHits_update_next_hit
        \<lparr>MeasureRecordReader.position = 0, bits_per_record = 8, FormatHits.inp = [49, 10],
         separator = 44, next_hit = 3, position = 4\<rparr>
     = (Inl MalformedInput,
        \<lparr>MeasureRecordReader.position = 0, bits_per_record = 8, FormatHits.inp = [],
         separator = 10, next_hit = 1, position = 4\<rparr>)
   \<and> FormatHits_update_next_hit
        \<lparr>MeasureRecordReader.position = 0, bits_per_record = 8, FormatHits.inp = [49, 50, 44, 55],
         separator = 44, next_hit = 3, position = 4\<rparr>
     = (Inl MalformedInput,
        \<lparr>MeasureRecordReader.position = 0, bits_per_record = 8, FormatHits.inp = [55],
         separator = 44, next_hit = 12, position = 4\<rparr>)
   \<and> FormatDets_update_next_shot
        \<lparr>MeasureRecordReader.position = 0, bits_per_record = 4, FormatDets.inp = [68, 48, 10],
         result_type = 77, separator = 32, next_shot = 2, position = 3\<rparr>
     = (Inr (),
        \<lparr>MeasureRecordReader.position = 0, bits_per_record = 4, FormatDets.inp = [],
         result_type = 68, separator = 10, next_shot = 3, position = 3\<rparr>)
   \<and> FormatDets_update_next_shot
        \<lparr>MeasureRecordReader.position = 0, bits_per_record = 4, FormatDets.inp = [77, 49, 32, 77],
         result_type = 77, separator = 32, next_shot = 2, position = 3\<rparr>
     = (Inl MalformedInput,
        \<lparr>MeasureRecordReader.position = 0, bits_per_record = 4, FormatDets.inp = [77],
         result_type = 77, separator = 32, next_shot = 1, position = 3\<rparr>)"
proof -
  let ?h = "\<lparr>MeasureRecordReader.position = 0, bits_per_record = 8,
             FormatHits.inp = [49, 10], separator = 44, next_hit = 3, position = 4\<rparr>"
  let ?g = "\<lparr>MeasureRecordReader.position = 0, bits_per_record = 8,
             FormatHits.inp = [49, 50, 44, 55], separator = 44, next_hit = 3, position = 4\<rparr>"
  let ?d = "\<lparr>MeasureRecordReader.position = 0, bits_per_record = 4,
             FormatDets.inp = [68, 48, 10],
             result_type = 77, separator = 32, next_shot = 2, position = 3\<rparr>"
  let ?e = "\<lparr>MeasureRecordReader.position = 0, bits_per_record = 4,
             FormatDets.inp = [77, 49, 32, 77],
             result_type = 77, separator = 32, next_shot = 2, position = 3\<rparr>"
  have w: "long_wrap 3 = 3"
    by (simp add: long_wrap_def)
  from sparse_index_checked [of ?h "[49]" "[10]" ?d 68 "[48]" "[10]"]
    sparse_index_checked [of ?g "[49, 50]" "[44, 55]" ?e 77 "[49]" "[32, 77]"] w
  show ?thesis
    by (simp add: is_digit_def decimal_def getc_def isdigit_def SSIZE_MAX_def)
qed

text \<open>
  The claim as stated (every index read is at least the cursor) fails in the Dets
  format at a change of tag: in the record \<open>shot M2 D0\<close> of 4 bits the token \<open>D0\<close> is
  read when the cursor is 3; its index 0 is accepted and stands for the bit 3.
\<close>

theorem sparse_index_counterexample:
  "case make (map of_char ''shot M2 D0'' @ [0x0A]) SAMPLE_FORMAT_DETS 4 0 0 of
     Inl e \<Rightarrow> False
   | Inr r0 \<Rightarrow>
       (case read_bits read_bit 3 r0 of
          (res, ReaderDets st) \<Rightarrow>
            res = Inr [False, False, True]
            \<and> FormatDets.position st = 3
            \<and> FormatDets.inp st = [68, 48, 10]
            \<and> read_unsigned_int [48, 10] (next_shot st) = (True, [], 0, 10)
            \<and> fst (FormatDets_update_next_shot st) = Inr ()
            \<and> fst (read_bits read_bit 1 (ReaderDets st)) = Inr [True]
        | (res, _) \<Rightarrow> False)"
  by code_simp


subsection \<open>Construction\<close>

lemma Format01_ctor_ok:
  "n \<le> SSIZE_MAX \<Longrightarrow> \<exists>st. Format01_ctor s n = Inr st"
  by (simp add: Format01_ctor_def MeasureRecordReader_ctor_def split: prod.splits)

lemma FormatB8_ctor_ok:
  "n \<le> SSIZE_MAX \<Longrightarrow> \<exists>st. FormatB8_ctor s n = Inr st"
  by (simp add: FormatB8_ctor_def MeasureRecordReader_ctor_def)

lemma FormatR8_ctor_ok:
  "n \<le> SSIZE_MAX \<Longrightarrow> \<exists>st. FormatR8_ctor s n = Inr st"
  by (simp add: FormatR8_ctor_def MeasureRecordReader_ctor_def Let_def split: prod.splits)

lemma ctor_too_big:
  "n > SSIZE_MAX \<Longrightarrow> Format01_ctor s n = Inl ConfigurationError"
  "n > SSIZE_MAX \<Longrightarrow> FormatB8_ctor s n = Inl ConfigurationError"
  "n > SSIZE_MAX \<Longrightarrow> FormatR8_ctor s n = Inl ConfigurationError"
  "n > SSIZE_MAX \<Longrightarrow> FormatHits_ctor s n = Inl ConfigurationError"
  "n > SSIZE_MAX \<Longrightarrow> FormatDets_ctor s n nd nl = Inl ConfigurationError"
  by (simp_all add: Format01_ctor_def FormatB8_ctor_def FormatR8_ctor_def FormatHits_ctor_def
        FormatDets_ctor_def MeasureRecordReader_ctor_def)

lemma FormatHits_ctor_no_digit:
  assumes n: "n \<le> SSIZE_MAX" and nd: "\<not> isdigit (fst (getc s))"
  shows "FormatHits_ctor s n =
     (if fst (getc s) = ch CHR 0x0A \<or> fst (getc s) = EOF
      then Inr \<lparr>MeasureRecordReader.position = 0, bits_per_record = n,
                FormatHits.inp = snd (getc s), separator = fst (getc s), next_hit = - 1,
                position = 0\<rparr>
      else Inl MalformedInput)"
proof -
  let ?h = "\<lparr>MeasureRecordReader.position = 0, bits_per_record = n, FormatHits.inp = s,
             separator = 0, next_hit = - 1, position = 0\<rparr>"
  from nd have "\<not> isdigit (fst (getc (FormatHits.inp ?h)))" by simp
  from FormatHits_update_next_hit_no_digit [OF this] n show ?thesis
    by (simp add: FormatHits_ctor_def MeasureRecordReader_ctor_def MeasureRecordReader.extend_def)
qed

lemma FormatHits_ctor_decimal:
  assumes n: "n \<le> SSIZE_MAX" and ne: "ds \<noteq> []" and dg: "list_all is_digit ds"
    and nd: "\<not> isdigit (fst (getc rest))" and small: "decimal ds < 2 ^ 63"
  shows "FormatHits_ctor (ds @ rest) n =
     (if (fst (getc rest) = ch CHR '','' \<or> fst (getc rest) = ch CHR 0x0A) \<and> decimal ds < n
      then Inr \<lparr>MeasureRecordReader.position = 0, bits_per_record = n,
                FormatHits.inp = snd (getc rest), separator = fst (getc rest),
                next_hit = int (decimal ds), position = 0\<rparr>
      else Inl MalformedInput)"
proof -
  let ?h = "\<lparr>MeasureRecordReader.position = 0, bits_per_record = n,
             FormatHits.inp = ds @ rest, separator = 0, next_hit = - 1, position = 0\<rparr>"
  have "FormatHits.inp ?h = ds @ rest" "0 \<le> FormatHits.position ?h" by simp_all
  from FormatHits_update_next_hit_decimal [OF this(1) ne dg nd small this(2)] n show ?thesis
    by (simp add: FormatHits_ctor_def MeasureRecordReader_ctor_def MeasureRecordReader.extend_def)
qed

definition shot_bytes :: "uint8 list" where
  "shot_bytes = [0x73, 0x68, 0x6F, 0x74]"

lemma maybe_consume_keyword_shot:
  "maybe_consume_keyword (shot_bytes @ r) shot_keyword = (Inr True, snd (getc r), fst (getc r))"
  by (simp add: maybe_consume_keyword_def shot_bytes_def shot_keyword_def getc_def
        consume_keyword_loop.simps split: list.splits)

lemma maybe_consume_keyword_other:
  "c \<noteq> 0x73 \<Longrightarrow> fst (maybe_consume_keyword (c # r) shot_keyword) = Inl MalformedInput"
proof -
  assume "c \<noteq> 0x73"
  then have "uint c \<noteq> 115"
    by (metis uint_bintrunc word_of_int_uint word_of_int_numeral)
  then show ?thesis
    by (simp add: maybe_consume_keyword_def shot_keyword_def getc_def
          consume_keyword_loop.simps)
qed

lemma FormatDets_ctor_empty:
  "n \<le> SSIZE_MAX \<Longrightarrow> FormatDets_ctor [] n nd nl = Inl MalformedInput"
  by (simp add: FormatDets_ctor_def MeasureRecordReader_ctor_def maybe_consume_keyword_def
        getc_def)

lemma FormatDets_ctor_other:
  "n \<le> SSIZE_MAX \<Longrightarrow> c \<noteq> 0x73 \<Longrightarrow> FormatDets_ctor (c # r) n nd nl = Inl MalformedInput"
  using maybe_consume_keyword_other [of c r]
  by (cases "maybe_consume_keyword (c # r) shot_keyword")
     (simp add: FormatDets_ctor_def MeasureRecordReader_ctor_def)

lemma FormatDets_ctor_shot_only:
  assumes n: "n \<le> SSIZE_MAX" and e: "snd (getc r) = []"
  shows "FormatDets_ctor (shot_bytes @ r) n nd nl =
     Inr \<lparr>MeasureRecordReader.position = 0, bits_per_record = n, FormatDets.inp = [],
          result_type = ch CHR ''M'', separator = EOF, next_shot = - 1, position = 0\<rparr>"
  using n e
  by (simp add: FormatDets_ctor_def MeasureRecordReader_ctor_def maybe_consume_keyword_shot
        MeasureRecordReader.extend_def FormatDets_update_next_shot_def getc_def
        char_of_int_cast_def)

lemma FormatDets_ctor_decimal:
  assumes n: "n \<le> SSIZE_MAX"
    and t: "c = 0x4D \<or> c = 0x44 \<or> c = 0x4C"
    and ne: "ds \<noteq> []" and dg: "list_all is_digit ds"
    and sp: "fst (getc rest) = ch CHR '' '' \<or> fst (getc rest) = ch CHR 0x0A"
    and small: "decimal ds < 2 ^ 63"
  shows "FormatDets_ctor (shot_bytes @ x # c # ds @ rest) n nd nl =
     (if decimal ds < n
      then Inr \<lparr>MeasureRecordReader.position = 0, bits_per_record = n,
                FormatDets.inp = snd (getc rest), result_type = uint c,
                separator = fst (getc rest), next_shot = int (decimal ds), position = 0\<rparr>
      else Inl MalformedInput)"
proof -
  let ?d = "\<lparr>MeasureRecordReader.position = 0, bits_per_record = n,
             FormatDets.inp = c # ds @ rest, result_type = ch CHR ''M'', separator = uint x,
             next_shot = - 1, position = 0\<rparr>"
  have k: "maybe_consume_keyword (shot_bytes @ x # c # ds @ rest) shot_keyword
             = (Inr True, c # ds @ rest, uint x)"
    by (simp add: maybe_consume_keyword_shot getc_def)
  have "FormatDets.inp ?d = c # ds @ rest" "0 \<le> FormatDets.position ?d"
    "FormatDets.position ?d \<le> int (bits_per_record ?d)" "bits_per_record ?d \<le> SSIZE_MAX"
    using n by simp_all
  note u = FormatDets_update_next_shot_decimal [OF this(1) t ne dg sp small this(2,3,4)]
  have w: "long_wrap (int (decimal ds)) = int (decimal ds)"
    using small_int [OF small] by (intro long_wrap_id) simp_all
  from t have "uint c = 77 \<or> uint c = 68 \<or> uint c = 76" by auto
  with n u w show ?thesis
    unfolding FormatDets_ctor_def k
    by (auto simp: MeasureRecordReader_ctor_def MeasureRecordReader.extend_def)
qed

text \<open>
  Claim C9, as amended. \<^verbatim>\<open>make\<close> fails with a configuration error
  (\<^verbatim>\<open>std::invalid_argument\<close>) when a count of detection events or of logical
  observables other than 0 comes with a format other than DETS, and when the record
  size exceeds \<^verbatim>\<open>SSIZE_MAX\<close>; the format PTB64 and any unlisted value are configuration
  errors too. With a record size within \<^verbatim>\<open>SSIZE_MAX\<close> and counts that fit the format,
  it builds the reader of the format:
  \<^item> for 01, B8 and R8 the construction succeeds on every stream;
  \<^item> for HITS the constructor reads the first token. The construction succeeds when the
    stream is empty, when it begins with a newline, and when it begins with an index
    (decimal digits, below \<open>2^63\<close>) that is less than \<^verbatim>\<open>bits_per_record\<close> and is
    followed by a comma or a newline, the reader holding this index as \<^verbatim>\<open>next_hit\<close>;
    it fails with a \<^verbatim>\<open>std::runtime_error\<close> (malformed input) when the stream begins
    with any other character, or with an index that is not less than
    \<^verbatim>\<open>bits_per_record\<close> or is followed by something else;
  \<^item> for DETS the constructor reads the keyword \<open>shot\<close>, one more character and the
    first token. The construction fails with a \<^verbatim>\<open>std::runtime_error\<close> when the stream
    is empty or does not begin with \<open>s\<close>; it succeeds when nothing follows the keyword
    and that character, and when a token follows (a tag \<open>M\<close>, \<open>D\<close> or \<open>L\<close>, an
    index below \<open>2^63\<close>, a space or a newline) whose index is less than
    \<^verbatim>\<open>bits_per_record\<close>, the reader holding the tag and the index; with an index that
    is not less it fails with a \<^verbatim>\<open>std::runtime_error\<close>.
\<close>

theorem make_spec:
  "(f \<noteq> SAMPLE_FORMAT_DETS \<and> (nd \<noteq> 0 \<or> nl \<noteq> 0) \<longrightarrow> make s f n nd nl = Inl ConfigurationError)
   \<and> (n > SSIZE_MAX \<longrightarrow> make s f n nd nl = Inl ConfigurationError)
   \<and> (n \<le> SSIZE_MAX \<and> (f \<noteq> SAMPLE_FORMAT_DETS \<longrightarrow> nd = 0 \<and> nl = 0) \<longrightarrow>
        (case f of
           SAMPLE_FORMAT_01 \<Rightarrow> \<exists>st. make s f n nd nl = Inr (Reader01 st)
         | SAMPLE_FORMAT_B8 \<Rightarrow> \<exists>st. make s f n nd nl = Inr (ReaderB8 st)
         | SAMPLE_FORMAT_R8 \<Rightarrow> \<exists>st. make s f n nd nl = Inr (ReaderR8 st)
         | SAMPLE_FORMAT_HITS \<Rightarrow>
             (\<not> isdigit (fst (getc s)) \<longrightarrow>
                make s f n nd nl =
                  (if fst (getc s) = EOF \<or> fst (getc s) = ch CHR 0x0A
                   then Inr (ReaderHits
                          \<lparr>MeasureRecordReader.position = 0, bits_per_record = n,
                           FormatHits.inp = snd (getc s), separator = fst (getc s),
                           next_hit = - 1, position = 0\<rparr>)
                   else Inl MalformedInput))
             \<and> (s = ds @ rest \<and> ds \<noteq> [] \<and> list_all is_digit ds
                  \<and> \<not> isdigit (fst (getc rest)) \<and> decimal ds < 2 ^ 63 \<longrightarrow>
                make s f n nd nl =
                  (if (fst (getc rest) = ch CHR '','' \<or> fst (getc rest) = ch CHR 0x0A)
                       \<and> decimal ds < n
                   then Inr (ReaderHits
                          \<lparr>MeasureRecordReader.position = 0, bits_per_record = n,
                           FormatHits.inp = snd (getc rest), separator = fst (getc rest),
                           next_hit = int (decimal ds), position = 0\<rparr>)
                   else Inl MalformedInput))
         | SAMPLE_FORMAT_DETS \<Rightarrow>
             (s = [] \<or> hd s \<noteq> 0x73 \<longrightarrow> make s f n nd nl = Inl MalformedInput)
             \<and> (s = shot_bytes @ rest \<and> snd (getc rest) = [] \<longrightarrow>
                make s f n nd nl =
                  Inr (ReaderDets
                         \<lparr>MeasureRecordReader.position = 0, bits_per_record = n,
                          FormatDets.inp = [], result_type = ch CHR ''M'', separator = EOF,
                          next_shot = - 1, position = 0\<rparr>))
             \<and> (s = shot_bytes @ x # c # ds @ rest \<and> (c = 0x4D \<or> c = 0x44 \<or> c = 0x4C)
                  \<and> ds \<noteq> [] \<and> list_all is_digit ds
                  \<and> (fst (getc rest) = ch CHR '' '' \<or> fst (getc rest) = ch CHR 0x0A)
                  \<and> decimal ds < 2 ^ 63 \<longrightarrow>
                make s f n nd nl =
                  (if decimal ds < n
                   then Inr (ReaderDets
                          \<lparr>MeasureRecordReader.position = 0, bits_per_record = n,
                           FormatDets.inp = snd (getc rest), result_type = uint c,
                           separator = fst (getc rest), next_shot = int (decimal ds),
                           position = 0\<rparr>)
                   else Inl MalformedInput))
         | SAMPLE_FORMAT_PTB64 \<Rightarrow> make s f n nd nl = Inl ConfigurationError
         | SAMPLE_FORMAT_unlisted \<Rightarrow> make s f n nd nl = Inl ConfigurationError))"
proof (intro conjI impI)
  assume "f \<noteq> SAMPLE_FORMAT_DETS \<and> (nd \<noteq> 0 \<or> nl \<noteq> 0)"
  then show "make s f n nd nl = Inl ConfigurationError"
    by (auto simp: make_def)
next
  assume "n > SSIZE_MAX"
  then show "make s f n nd nl = Inl ConfigurationError"
    by (cases f) (simp_all add: make_def ctor_too_big)
next
  assume v: "n \<le> SSIZE_MAX \<and> (f \<noteq> SAMPLE_FORMAT_DETS \<longrightarrow> nd = 0 \<and> nl = 0)"
  then have n: "n \<le> SSIZE_MAX" by simp
  show "case f of
           SAMPLE_FORMAT_01 \<Rightarrow> \<exists>st. make s f n nd nl = Inr (Reader01 st)
         | SAMPLE_FORMAT_B8 \<Rightarrow> \<exists>st. make s f n nd nl = Inr (ReaderB8 st)
         | SAMPLE_FORMAT_R8 \<Rightarrow> \<exists>st. make s f n nd nl = Inr (ReaderR8 st)
         | SAMPLE_FORMAT_HITS \<Rightarrow>
             (\<not> isdigit (fst (getc s)) \<longrightarrow>
                make s f n nd nl =
                  (if fst (getc s) = EOF \<or> fst (getc s) = ch CHR 0x0A
                   then Inr (ReaderHits
                          \<lparr>MeasureRecordReader.position = 0, bits_per_record = n,
                           FormatHits.inp = snd (getc s), separator = fst (getc s),
                           next_hit = - 1, position = 0\<rparr>)
                   else Inl MalformedInput))
             \<and> (s = ds @ rest \<and> ds \<noteq> [] \<and> list_all is_digit ds
                  \<and> \<not> isdigit (fst (getc rest)) \<and> decimal ds < 2 ^ 63 \<longrightarrow>
                make s f n nd nl =
                  (if (fst (getc rest) = ch CHR '','' \<or> fst (getc rest) = ch CHR 0x0A)
                       \<and> decimal ds < n
                   then Inr (ReaderHits
                          \<lparr>MeasureRecordReader.position = 0, bits_per_record = n,
                           FormatHits.inp = snd (getc rest), separator = fst (getc rest),
                           next_hit = int (decimal ds), position = 0\<rparr>)
                   else Inl MalformedInput))
         | SAMPLE_FORMAT_DETS \<Rightarrow>
             (s = [] \<or> hd s \<noteq> 0x73 \<longrightarrow> make s f n nd nl = Inl MalformedInput)
             \<and> (s = shot_bytes @ rest \<and> snd (getc rest) = [] \<longrightarrow>
                make s f n nd nl =
                  Inr (ReaderDets
                         \<lparr>MeasureRecordReader.position = 0, bits_per_record = n,
                          FormatDets.inp = [], result_type = ch CHR ''M'', separator = EOF,
                          next_shot = - 1, position = 0\<rparr>))
             \<and> (s = shot_bytes @ x # c # ds @ rest \<and> (c = 0x4D \<or> c = 0x44 \<or> c = 0x4C)
                  \<and> ds \<noteq> [] \<and> list_all is_digit ds
                  \<and> (fst (getc rest) = ch CHR '' '' \<or> fst (getc rest) = ch CHR 0x0A)
                  \<and> decimal ds < 2 ^ 63 \<longrightarrow>
                make s f n nd nl =
                  (if decimal ds < n
                   then Inr (ReaderDets
                          \<lparr>MeasureRecordReader.position = 0, bits_per_record = n,
                           FormatDets.inp = snd (getc rest), result_type = uint c,
                           separator = fst (getc rest), next_shot = int (decimal ds),
                           position = 0\<rparr>)
                   else Inl MalformedInput))
         | SAMPLE_FORMAT_PTB64 \<Rightarrow> make s f n nd nl = Inl ConfigurationError
         | SAMPLE_FORMAT_unlisted \<Rightarrow> make s f n nd nl = Inl ConfigurationError"
  proof (cases f)
    case SAMPLE_FORMAT_01
    with v Format01_ctor_ok [OF n, of s] show ?thesis by (auto simp: make_def)
  next
    case SAMPLE_FORMAT_B8
    with v FormatB8_ctor_ok [OF n, of s] show ?thesis by (auto simp: make_def)
  next
    case SAMPLE_FORMAT_R8
    with v FormatR8_ctor_ok [OF n, of s] show ?thesis by (auto simp: make_def)
  next
    case SAMPLE_FORMAT_PTB64
    with v show ?thesis by (simp add: make_def)
  next
    case SAMPLE_FORMAT_unlisted
    with v show ?thesis by (simp add: make_def)
  next
    case SAMPLE_FORMAT_HITS
    with v have m: "make s f n nd nl = map_sum id ReaderHits (FormatHits_ctor s n)"
      by (simp add: make_def)
    show ?thesis
      unfolding SAMPLE_FORMAT_HITS SampleFormat.case m [unfolded SAMPLE_FORMAT_HITS]
    proof (intro conjI impI)
      assume "\<not> isdigit (fst (getc s))"
      from FormatHits_ctor_no_digit [OF n this]
      show "map_sum id ReaderHits (FormatHits_ctor s n) =
                  (if fst (getc s) = EOF \<or> fst (getc s) = ch CHR 0x0A
                   then Inr (ReaderHits
                          \<lparr>MeasureRecordReader.position = 0, bits_per_record = n,
                           FormatHits.inp = snd (getc s), separator = fst (getc s),
                           next_hit = - 1, position = 0\<rparr>)
                   else Inl MalformedInput)"
        by auto
    next
      assume a: "s = ds @ rest \<and> ds \<noteq> [] \<and> list_all is_digit ds
                  \<and> \<not> isdigit (fst (getc rest)) \<and> decimal ds < 2 ^ 63"
      then have "ds \<noteq> []" "list_all is_digit ds" "\<not> isdigit (fst (getc rest))"
        "decimal ds < 2 ^ 63" and s: "s = ds @ rest"
        by simp_all
      from FormatHits_ctor_decimal [OF n this(1-4)]
      show "map_sum id ReaderHits (FormatHits_ctor s n) =
                  (if (fst (getc rest) = ch CHR '','' \<or> fst (getc rest) = ch CHR 0x0A)
                       \<and> decimal ds < n
                   then Inr (ReaderHits
                          \<lparr>MeasureRecordReader.position = 0, bits_per_record = n,
                           FormatHits.inp = snd (getc rest), separator = fst (getc rest),
                           next_hit = int (decimal ds), position = 0\<rparr>)
                   else Inl MalformedInput)"
        unfolding s by simp
    qed
  next
    case SAMPLE_FORMAT_DETS
    have m: "make s SAMPLE_FORMAT_DETS n nd nl = map_sum id ReaderDets (FormatDets_ctor s n nd nl)"
      by (simp add: make_def)
    show ?thesis
      unfolding SAMPLE_FORMAT_DETS SampleFormat.case m
    proof (intro conjI impI)
      assume "s = [] \<or> hd s \<noteq> 0x73"
      then show "map_sum id ReaderDets (FormatDets_ctor s n nd nl) = Inl MalformedInput"
        using FormatDets_ctor_empty [OF n, of nd nl] FormatDets_ctor_other [OF n, of "hd s" "tl s" nd nl]
        by (cases s) auto
    next
      assume "s = shot_bytes @ rest \<and> snd (getc rest) = []"
      then show "map_sum id ReaderDets (FormatDets_ctor s n nd nl) =
                  Inr (ReaderDets
                         \<lparr>MeasureRecordReader.position = 0, bits_per_record = n,
                          FormatDets.inp = [], result_type = ch CHR ''M'', separator = EOF,
                          next_shot = - 1, position = 0\<rparr>)"
        using FormatDets_ctor_shot_only [OF n, of rest nd nl] by simp
    next
      assume a: "s = shot_bytes @ x # c # ds @ rest \<and> (c = 0x4D \<or> c = 0x44 \<or> c = 0x4C)
                  \<and> ds \<noteq> [] \<and> list_all is_digit ds
                  \<and> (fst (getc rest) = ch CHR '' '' \<or> fst (getc rest) = ch CHR 0x0A)
                  \<and> decimal ds < 2 ^ 63"
      then have "c = 0x4D \<or> c = 0x44 \<or> c = 0x4C" "ds \<noteq> []" "list_all is_digit ds"
        "fst (getc rest) = ch CHR '' '' \<or> fst (getc rest) = ch CHR 0x0A" "decimal ds < 2 ^ 63"
        and s: "s = shot_bytes @ x # c # ds @ rest"
        by simp_all
      from FormatDets_ctor_decimal [OF n this(1-5), of x nd nl]
      show "map_sum id ReaderDets (FormatDets_ctor s n nd nl) =
                  (if decimal ds < n
                   then Inr (ReaderDets
                          \<lparr>MeasureRecordReader.position = 0, bits_per_record = n,
                           FormatDets.inp = snd (getc rest), result_type = uint c,
                           separator = fst (getc rest), next_shot = int (decimal ds),
                           position = 0\<rparr>)
                   else Inl MalformedInput)"
        unfolding s by simp
    qed
  qed
qed

theorem make_spec_witness:
  "make [] SAMPLE_FORMAT_HITS 8 1 0 = Inl ConfigurationError
   \<and> make [] SAMPLE_FORMAT_B8 (2 ^ 63) 0 0 = Inl ConfigurationError
   \<and> (\<exists>st. make [49] SAMPLE_FORMAT_01 1 0 0 = Inr (Reader01 st))
   \<and> make [] SAMPLE_FORMAT_HITS 8 0 0
       = Inr (ReaderHits \<lparr>MeasureRecordReader.position = 0, bits_per_record = 8,
                FormatHits.inp = [], separator = EOF, next_hit = - 1, position = 0\<rparr>)
   \<and> make [49, 44, 51, 44, 55, 10] SAMPLE_FORMAT_HITS 8 0 0
       = Inr (ReaderHits \<lparr>MeasureRecordReader.position = 0, bits_per_record = 8,
                FormatHits.inp = [51, 44, 55, 10], separator = 44, next_hit = 1,
                position = 0\<rparr>)
   \<and> make [57, 10] SAMPLE_FORMAT_HITS 8 0 0 = Inl MalformedInput
   \<and> make [115, 104, 111, 116, 32, 77, 48, 32, 77, 50, 10] SAMPLE_FORMAT_DETS 3 0 0
       = Inr (ReaderDets \<lparr>MeasureRecordReader.position = 0, bits_per_record = 3,
                FormatDets.inp = [77, 50, 10], result_type = 77, separator = 32,
                next_shot = 0, position = 0\<rparr>)
   \<and> make [120] SAMPLE_FORMAT_DETS 3 0 0 = Inl MalformedInput"
proof -
  have a: "make [] SAMPLE_FORMAT_HITS 8 1 0 = Inl ConfigurationError"
    using make_spec [where f = SAMPLE_FORMAT_HITS and nd = 1 and nl = 0 and s = "[]" and n = 8] by simp
  have b: "make [] SAMPLE_FORMAT_B8 (2 ^ 63) 0 0 = Inl ConfigurationError"
    using make_spec [where f = SAMPLE_FORMAT_B8 and nd = 0 and nl = 0 and s = "[]" and n = "2 ^ 63"] by (simp add: SSIZE_MAX_def)
  have c: "\<exists>st. make [49] SAMPLE_FORMAT_01 1 0 0 = Inr (Reader01 st)"
    using make_spec [where f = SAMPLE_FORMAT_01 and nd = 0 and nl = 0 and s = "[49]" and n = 1] by (simp add: SSIZE_MAX_def)
  have d: "make [] SAMPLE_FORMAT_HITS 8 0 0
       = Inr (ReaderHits \<lparr>MeasureRecordReader.position = 0, bits_per_record = 8,
                FormatHits.inp = [], separator = EOF, next_hit = - 1, position = 0\<rparr>)"
    using make_spec [where f = SAMPLE_FORMAT_HITS and nd = 0 and nl = 0 and s = "[]" and n = 8]
    by (simp add: SSIZE_MAX_def getc_def isdigit_def)
  have e: "make [49, 44, 51, 44, 55, 10] SAMPLE_FORMAT_HITS 8 0 0
       = Inr (ReaderHits \<lparr>MeasureRecordReader.position = 0, bits_per_record = 8,
                FormatHits.inp = [51, 44, 55, 10], separator = 44, next_hit = 1,
                position = 0\<rparr>)"
    using make_spec [where f = SAMPLE_FORMAT_HITS and nd = 0 and nl = 0 and n = 8
                       and s = "[49, 44, 51, 44, 55, 10]" and ds = "[49]"
                       and rest = "[44, 51, 44, 55, 10]"]
    by (simp add: SSIZE_MAX_def getc_def isdigit_def is_digit_def decimal_def)
  have g: "make [57, 10] SAMPLE_FORMAT_HITS 8 0 0 = Inl MalformedInput"
    using make_spec [where f = SAMPLE_FORMAT_HITS and nd = 0 and nl = 0 and n = 8
                       and s = "[57, 10]" and ds = "[57]" and rest = "[10]"]
    by (simp add: SSIZE_MAX_def getc_def isdigit_def is_digit_def decimal_def)
  have h: "make [115, 104, 111, 116, 32, 77, 48, 32, 77, 50, 10] SAMPLE_FORMAT_DETS 3 0 0
       = Inr (ReaderDets \<lparr>MeasureRecordReader.position = 0, bits_per_record = 3,
                FormatDets.inp = [77, 50, 10], result_type = 77, separator = 32,
                next_shot = 0, position = 0\<rparr>)"
    using make_spec [where f = SAMPLE_FORMAT_DETS and nd = 0 and nl = 0 and n = 3
                       and s = "[115, 104, 111, 116, 32, 77, 48, 32, 77, 50, 10]"
                       and x = 32 and c = 77 and ds = "[48]" and rest = "[32, 77, 50, 10]"]
    by (simp add: SSIZE_MAX_def getc_def isdigit_def is_digit_def decimal_def shot_bytes_def)
  have i: "make [120] SAMPLE_FORMAT_DETS 3 0 0 = Inl MalformedInput"
    using make_spec [where f = SAMPLE_FORMAT_DETS and nd = 0 and nl = 0 and s = "[120]" and n = 3]
    by (simp add: SSIZE_MAX_def)
  from a b c d e g h i show ?thesis by blast
qed

text \<open>
  The claim as stated (with valid parameters the construction succeeds) fails for the
  DETS format on a stream that does not begin with \<open>shot\<close>, here the empty one, and
  for the HITS format on a stream that begins with a character that is neither a digit
  nor a newline, here \<open>x\<close>.
\<close>

theorem make_counterexample:
  "3 \<le> SSIZE_MAX \<and> make [] SAMPLE_FORMAT_DETS 3 0 0 = Inl MalformedInput
   \<and> make [120] SAMPLE_FORMAT_HITS 3 0 0 = Inl MalformedInput"
  by code_simp

subsection \<open>\<open>read_bytes\<close> at the end of a record\<close>

text \<open>
  Claim C5. The header documents that beyond the end of the record \<^verbatim>\<open>read_bytes\<close>
  returns no data. \<^verbatim>\<open>MeasureRecordReader::read_bytes\<close> tests the cursor only, not the
  virtual \<^verbatim>\<open>is_end_of_record\<close>: in the 01 format, on the record \<open>0\<close> ended by a
  newline before the 2 declared bits, \<^verbatim>\<open>is_end_of_record\<close> is true after one bit, and
  \<^verbatim>\<open>read_bytes\<close> then sets the first byte of the buffer to 0 and raises the error of
  \<^verbatim>\<open>read_bit\<close> instead of returning 0.
\<close>

theorem read_bytes_at_newline_throws:
  "case make (map of_char ''0'' @ [0x0A]) SAMPLE_FORMAT_01 2 0 0 of
     Inl e \<Rightarrow> False
   | Inr r0 \<Rightarrow>
       (case read_bits read_bit 1 r0 of
          (res, r1) \<Rightarrow>
            res = Inr [False] \<and> fst (is_end_of_record r1)
            \<and> (case read_bytes [0xAA] r1 of
                  (res2, data, r2) \<Rightarrow> res2 = Inl EndOfRecord \<and> data = [0]))"
  by code_simp

subsection \<open>Reading all the bits of a record\<close>

text \<open>
  The cursor of a reader is the counter its \<^verbatim>\<open>read_bit\<close> advances. A record is fresh
  when the cursor is 0 and the record size is one the constructor accepts: this is the
  state \<^verbatim>\<open>make\<close> leaves and the state a \<^verbatim>\<open>next_record\<close> that returns true leaves.
  \<open>unread\<close> counts, for the 01 format, the characters of the stream not yet returned
  as bits, the current one included. \<open>counts len n j r\<close> is the invariant of a reader
  that has returned \<open>j\<close> bits of a record of \<open>n\<close> bits.
\<close>

definition rem01 :: "Format01 \<Rightarrow> nat" where
  "rem01 st = (if Format01.payload st = EOF then 0 else 1 + length (Format01.inp st))"

definition record_bits :: "reader \<Rightarrow> nat" where
  "record_bits r =
     (case r of Reader01 st \<Rightarrow> bits_per_record st | ReaderB8 st \<Rightarrow> bits_per_record st
      | ReaderDets st \<Rightarrow> bits_per_record st | ReaderHits st \<Rightarrow> bits_per_record st
      | ReaderR8 st \<Rightarrow> bits_per_record st)"

definition cursor :: "reader \<Rightarrow> int" where
  "cursor r =
     (case r of Reader01 st \<Rightarrow> int (MeasureRecordReader.position st)
      | ReaderB8 st \<Rightarrow> int (MeasureRecordReader.position st)
      | ReaderDets st \<Rightarrow> FormatDets.position st
      | ReaderHits st \<Rightarrow> FormatHits.position st
      | ReaderR8 st \<Rightarrow> int (MeasureRecordReader.position st))"

definition fresh :: "reader \<Rightarrow> bool" where
  "fresh r \<longleftrightarrow> cursor r = 0 \<and> record_bits r \<le> SSIZE_MAX"

definition unread :: "reader \<Rightarrow> nat" where
  "unread r = (case r of Reader01 st \<Rightarrow> rem01 st | _ \<Rightarrow> 0)"

definition is_01 :: "reader \<Rightarrow> bool" where
  "is_01 r = (case r of Reader01 st \<Rightarrow> True | _ \<Rightarrow> False)"

definition inherits_is_end_of_record :: "reader \<Rightarrow> bool" where
  "inherits_is_end_of_record r =
     (case r of ReaderHits st \<Rightarrow> True | ReaderDets st \<Rightarrow> True | _ \<Rightarrow> False)"

definition same_format :: "reader \<Rightarrow> reader \<Rightarrow> bool" where
  "same_format r r' \<longleftrightarrow>
     is_01 r = is_01 r' \<and> inherits_is_end_of_record r = inherits_is_end_of_record r'"

definition counts :: "nat \<Rightarrow> nat \<Rightarrow> nat \<Rightarrow> reader \<Rightarrow> bool" where
  "counts len n j r \<longleftrightarrow>
     cursor r = int j \<and> record_bits r = n \<and> (is_01 r \<longrightarrow> unread r + j = len)"

lemma read_bits_invariant:
  assumes "read_bits rb k st = (Inr bits, st')"
    and "Q j st"
    and step: "\<And>i s b s'. Q i s \<Longrightarrow> rb s = (Inr b, s') \<Longrightarrow> Q (Suc i) s'"
  shows "Q (j + k) st' \<and> length bits = k"
  using assms(1,2)
proof (induction k arbitrary: j st bits)
  case 0
  then show ?case by simp
next
  case (Suc k)
  from Suc.prems(1) obtain b st1 bs where
    rb: "rb st = (Inr b, st1)" and rest: "read_bits rb k st1 = (Inr bs, st')" and bits: "bits = b # bs"
    by (auto split: prod.splits sum.splits)
  from step [OF Suc.prems(2) rb] have "Q (Suc j) st1" .
  from Suc.IH [OF rest this] bits show ?case by simp
qed

lemma Format01_read_bit_step:
  "Format01_read_bit st = (Inr b, st') \<Longrightarrow>
     MeasureRecordReader.position st' = MeasureRecordReader.position st + 1
     \<and> bits_per_record st' = bits_per_record st \<and> rem01 st' + 1 = rem01 st"
  by (auto simp: Format01_read_bit_def rem01_def getc_def Let_def
           split: if_splits prod.splits list.splits)

lemma FormatB8_read_bit_step:
  "FormatB8_read_bit st = (Inr b, st') \<Longrightarrow>
     MeasureRecordReader.position st' = MeasureRecordReader.position st + 1
     \<and> bits_per_record st' = bits_per_record st"
  by (auto simp: FormatB8_read_bit_def FormatB8_maybe_update_payload_def Let_def
           split: if_splits prod.splits)

lemma FormatR8_update_run_length_frame:
  "FormatR8_update_run_length st = (found, st') \<Longrightarrow>
     MeasureRecordReader.position st' = MeasureRecordReader.position st
     \<and> bits_per_record st' = bits_per_record st"
  by (auto simp: FormatR8_update_run_length_def Let_def split: if_splits prod.splits)

lemma FormatR8_read_bit_step:
  "FormatR8_read_bit st = (Inr b, st') \<Longrightarrow>
     MeasureRecordReader.position st' = MeasureRecordReader.position st + 1
     \<and> bits_per_record st' = bits_per_record st"
  by (auto simp: FormatR8_read_bit_def Let_def
           split: if_splits prod.splits bool.splits dest: FormatR8_update_run_length_frame)

lemma FormatHits_update_next_hit_frame:
  "FormatHits_update_next_hit st = (r, st') \<Longrightarrow>
     FormatHits.position st' = FormatHits.position st
     \<and> bits_per_record st' = bits_per_record st
     \<and> MeasureRecordReader.position st' = MeasureRecordReader.position st"
  by (auto simp: FormatHits_update_next_hit_def Let_def split: if_splits prod.splits)

lemma FormatHits_read_bit_step:
  "FormatHits_read_bit st = (Inr b, st') \<Longrightarrow>
     FormatHits.position st' = FormatHits.position st + 1
     \<and> bits_per_record st' = bits_per_record st
     \<and> MeasureRecordReader.position st' = MeasureRecordReader.position st"
  by (auto simp: FormatHits_read_bit_def Let_def
           split: if_splits prod.splits sum.splits dest: FormatHits_update_next_hit_frame)

lemma FormatDets_update_next_shot_frame:
  "FormatDets_update_next_shot st = (r, st') \<Longrightarrow>
     FormatDets.position st' = FormatDets.position st
     \<and> bits_per_record st' = bits_per_record st
     \<and> MeasureRecordReader.position st' = MeasureRecordReader.position st"
  by (auto simp: FormatDets_update_next_shot_def Let_def split: if_splits prod.splits)

lemma FormatDets_read_bit_step:
  "FormatDets_read_bit st = (Inr b, st') \<Longrightarrow>
     FormatDets.position st' = FormatDets.position st + 1
     \<and> bits_per_record st' = bits_per_record st
     \<and> MeasureRecordReader.position st' = MeasureRecordReader.position st"
  by (auto simp: FormatDets_read_bit_def Let_def
           split: if_splits prod.splits sum.splits dest: FormatDets_update_next_shot_frame)

lemma size_t_of_long_int: "n \<le> SSIZE_MAX \<Longrightarrow> size_t_of_long (int n) = n"
  by (simp add: size_t_of_long_def SSIZE_MAX_def mod_pos_pos_trivial)

lemma FormatB8_maybe_update_payload_frame:
  "MeasureRecordReader.position (FormatB8_maybe_update_payload st) = MeasureRecordReader.position st
   \<and> bits_per_record (FormatB8_maybe_update_payload st) = bits_per_record st"
  by (simp add: FormatB8_maybe_update_payload_def Let_def split: prod.splits)

lemma counts_step:
  "counts len n i r \<Longrightarrow> read_bit r = (Inr b, r') \<Longrightarrow> counts len n (Suc i) r' \<and> same_format r r'"
  by (cases r)
     (auto simp: read_bit_def apsnd_def map_prod_def counts_def cursor_def record_bits_def
           unread_def is_01_def same_format_def inherits_is_end_of_record_def
           split: prod.splits
           dest!: Format01_read_bit_step FormatB8_read_bit_step FormatR8_read_bit_step
                  FormatHits_read_bit_step FormatDets_read_bit_step)

lemma counts_end:
  assumes "counts len n n r1" and "n \<le> SSIZE_MAX"
  shows "\<not> inherits_is_end_of_record r1 \<Longrightarrow> fst (is_end_of_record r1)"
    and "fst (read_bit r1) = Inl (if is_01 r1 \<and> len \<le> n then EndOfStream else EndOfRecord)"
    and "fst (read_bit (snd (is_end_of_record r1))) = fst (read_bit r1)"
proof -
  show "\<not> inherits_is_end_of_record r1 \<Longrightarrow> fst (is_end_of_record r1)"
    using assms
    by (cases r1)
       (auto simp: is_end_of_record_def Format01_is_end_of_record_def
             FormatB8_is_end_of_record_def FormatR8_is_end_of_record_def
             counts_def cursor_def record_bits_def inherits_is_end_of_record_def Let_def
             FormatB8_maybe_update_payload_frame)
  show "fst (read_bit r1) = Inl (if is_01 r1 \<and> len \<le> n then EndOfStream else EndOfRecord)"
    using assms
    by (cases r1)
       (auto simp: read_bit_def Format01_read_bit_def FormatB8_read_bit_def
             FormatR8_read_bit_def FormatHits_read_bit_def FormatDets_read_bit_def
             counts_def cursor_def record_bits_def unread_def is_01_def
             rem01_def size_t_of_long_int split: if_splits)
  show "fst (read_bit (snd (is_end_of_record r1))) = fst (read_bit r1)"
    using assms
    by (cases r1)
       (auto simp: is_end_of_record_def Format01_is_end_of_record_def
             FormatB8_is_end_of_record_def FormatR8_is_end_of_record_def
             MeasureRecordReader_is_end_of_record_def Let_def
             counts_def cursor_def record_bits_def
             read_bit_def FormatB8_read_bit_def FormatR8_read_bit_def
             FormatHits_read_bit_def FormatDets_read_bit_def
             FormatB8_maybe_update_payload_frame)
qed

lemma read_all_bits_counts:
  assumes f: "fresh r" and rb: "read_bits read_bit (record_bits r) r = (Inr bits, r1)"
  shows "counts (unread r) (record_bits r) (record_bits r) r1 \<and> same_format r r1
       \<and> length bits = record_bits r"
proof -
  let ?Q = "\<lambda>j r'. counts (unread r) (record_bits r) j r' \<and> same_format r r'"
  have step: "\<And>i r' b r''. ?Q i r' \<Longrightarrow> read_bit r' = (Inr b, r'') \<Longrightarrow> ?Q (Suc i) r''"
    using counts_step by (fastforce simp: same_format_def)
  from f have q0: "?Q 0 r"
    by (simp add: fresh_def counts_def same_format_def)
  from read_bits_invariant [of read_bit "record_bits r" r bits r1 ?Q 0, OF rb q0 step]
  show ?thesis by simp
qed

lemma make_fresh:
  assumes "make s f n nd nl = Inr r"
  shows "fresh r \<and> record_bits r = n \<and> (f = SAMPLE_FORMAT_01 \<longrightarrow> unread r = length s)
       \<and> is_01 r = (f = SAMPLE_FORMAT_01)
       \<and> inherits_is_end_of_record r = (f = SAMPLE_FORMAT_HITS \<or> f = SAMPLE_FORMAT_DETS)"
proof (cases f)
  case SAMPLE_FORMAT_01
  with assms show ?thesis
    by (auto simp: make_def Format01_ctor_def MeasureRecordReader_ctor_def rem01_def getc_def
          MeasureRecordReader.extend_def fresh_def cursor_def record_bits_def unread_def
          is_01_def inherits_is_end_of_record_def
          split: if_splits prod.splits list.splits)
next
  case SAMPLE_FORMAT_B8
  with assms show ?thesis
    by (auto simp: make_def FormatB8_ctor_def MeasureRecordReader_ctor_def
          MeasureRecordReader.extend_def fresh_def cursor_def record_bits_def
          is_01_def inherits_is_end_of_record_def
          split: if_splits)
next
  case SAMPLE_FORMAT_DETS
  with assms show ?thesis
    by (auto simp: make_def FormatDets_ctor_def MeasureRecordReader_ctor_def
          MeasureRecordReader.extend_def fresh_def cursor_def record_bits_def
          is_01_def inherits_is_end_of_record_def
          split: if_splits prod.splits sum.splits bool.splits
          dest!: FormatDets_update_next_shot_frame)
next
  case SAMPLE_FORMAT_HITS
  with assms show ?thesis
    by (auto simp: make_def FormatHits_ctor_def MeasureRecordReader_ctor_def
          MeasureRecordReader.extend_def fresh_def cursor_def record_bits_def
          is_01_def inherits_is_end_of_record_def
          split: if_splits prod.splits sum.splits
          dest!: FormatHits_update_next_hit_frame)
next
  case SAMPLE_FORMAT_PTB64
  with assms show ?thesis by (simp add: make_def split: if_splits)
next
  case SAMPLE_FORMAT_R8
  with assms show ?thesis
    by (auto simp: make_def FormatR8_ctor_def MeasureRecordReader_ctor_def Let_def
          MeasureRecordReader.extend_def fresh_def cursor_def record_bits_def
          is_01_def inherits_is_end_of_record_def
          split: if_splits prod.splits
          dest!: FormatR8_update_run_length_frame)
next
  case SAMPLE_FORMAT_unlisted
  with assms show ?thesis by (simp add: make_def split: if_splits)
qed

lemma FormatHits_drain_frame:
  "FormatHits_drain st = (r, st') \<Longrightarrow> bits_per_record st' = bits_per_record st"
proof (induction st rule: FormatHits_drain.induct)
  case (1 st)
  show ?case
  proof (cases "FormatHits.separator st = ch CHR '',''")
    case True
    obtain e st1 where u: "FormatHits_update_next_hit st = (e, st1)"
      by (cases "FormatHits_update_next_hit st") auto
    from FormatHits_update_next_hit_frame [OF u]
    have b: "bits_per_record st1 = bits_per_record st" by simp
    show ?thesis
    proof (cases e)
      case (Inl x)
      with "1.prems" True u b show ?thesis
        by (subst (asm) FormatHits_drain.simps) simp
    next
      case (Inr y)
      with "1.prems" True u have "FormatHits_drain st1 = (r, st')"
        by (subst (asm) FormatHits_drain.simps) simp
      from "1.IH" [OF True _ _ this] u Inr b show ?thesis by simp
    qed
  next
    case False
    with "1.prems" show ?thesis
      by (subst (asm) FormatHits_drain.simps) simp
  qed
qed

lemma FormatDets_drain_frame:
  "FormatDets_drain st = (r, st') \<Longrightarrow> bits_per_record st' = bits_per_record st"
proof (induction st rule: FormatDets_drain.induct)
  case (1 st)
  show ?case
  proof (cases "FormatDets.separator st = ch CHR '' ''")
    case True
    obtain e st1 where u: "FormatDets_update_next_shot st = (e, st1)"
      by (cases "FormatDets_update_next_shot st") auto
    from FormatDets_update_next_shot_frame [OF u]
    have b: "bits_per_record st1 = bits_per_record st" by simp
    show ?thesis
    proof (cases e)
      case (Inl x)
      with "1.prems" True u b show ?thesis
        by (subst (asm) FormatDets_drain.simps) simp
    next
      case (Inr y)
      with "1.prems" True u have "FormatDets_drain st1 = (r, st')"
        by (subst (asm) FormatDets_drain.simps) simp
      from "1.IH" [OF True _ _ this] u Inr b show ?thesis by simp
    qed
  next
    case False
    with "1.prems" show ?thesis
      by (subst (asm) FormatDets_drain.simps) simp
  qed
qed

lemma next_record_fresh:
  assumes n: "record_bits r0 \<le> SSIZE_MAX" and nr: "next_record r0 = (Inr True, r)"
  shows "fresh r \<and> record_bits r = record_bits r0"
proof (cases r0)
  case (Reader01 st)
  with n nr show ?thesis
    by (auto simp: next_record_def Format01_next_record_def Let_def fresh_def cursor_def
          record_bits_def apsnd_def map_prod_def split: if_splits prod.splits)
next
  case (ReaderB8 st)
  with nr show ?thesis
    by (simp add: next_record_def MeasureRecordReader_next_record_def)
next
  case (ReaderR8 st)
  with nr show ?thesis
    by (simp add: next_record_def MeasureRecordReader_next_record_def)
next
  case (ReaderHits st)
  obtain e st1 where d: "FormatHits_drain st = (e, st1)"
    by (cases "FormatHits_drain st") auto
  obtain e2 st2 where u: "FormatHits_update_next_hit
        (st1\<lparr>next_hit := - 1, FormatHits.position := 0\<rparr>) = (e2, st2)"
    by (cases "FormatHits_update_next_hit (st1\<lparr>next_hit := - 1, FormatHits.position := 0\<rparr>)")
       auto
  from nr ReaderHits d u have r: "r = ReaderHits st2"
    by (auto simp: next_record_def FormatHits_next_record_def apsnd_def map_prod_def
             split: sum.splits)
  from FormatHits_drain_frame [OF d] FormatHits_update_next_hit_frame [OF u] n ReaderHits
  show ?thesis
    by (simp add: r fresh_def cursor_def record_bits_def)
next
  case (ReaderDets st)
  obtain e st1 where d: "FormatDets_drain st = (e, st1)"
    by (cases "FormatDets_drain st") auto
  obtain found rest nxt where
    k: "maybe_consume_keyword (FormatDets.inp st1) shot_keyword = (found, rest, nxt)"
    by (metis prod_cases3)
  let ?st2 = "st1\<lparr>FormatDets.inp := rest, FormatDets.separator := nxt\<rparr>"
  obtain e3 st3 where u: "FormatDets_update_next_shot
        (?st2\<lparr>next_shot := - 1, FormatDets.position := 0\<rparr>) = (e3, st3)"
    by (cases "FormatDets_update_next_shot (?st2\<lparr>next_shot := - 1, FormatDets.position := 0\<rparr>)")
       auto
  from nr ReaderDets d k u have r: "r = ReaderDets st3"
    by (auto simp: next_record_def FormatDets_next_record_def apsnd_def map_prod_def Let_def
             split: sum.splits bool.splits)
  from FormatDets_drain_frame [OF d] FormatDets_update_next_shot_frame [OF u] n ReaderDets
  show ?thesis
    by (simp add: r fresh_def cursor_def record_bits_def)
qed

text \<open>
  Claim C1, as amended. Let \<^verbatim>\<open>read_bit\<close> be called \<^verbatim>\<open>bits_per_record\<close> times in
  sequence on a fresh record (a reader as \<^verbatim>\<open>make\<close> returns it, or as a
  \<^verbatim>\<open>next_record\<close> that returned true leaves it), each call returning a bit. Then one
  further \<^verbatim>\<open>read_bit\<close>, before or after a call of \<^verbatim>\<open>is_end_of_record\<close>, fails in
  every format: with the end-of-record error, except in the 01 format when no
  character follows the bits read, where the test for the end of the stream comes
  first and the error is the end-of-stream one. In the formats 01, B8 and R8
  \<^verbatim>\<open>is_end_of_record\<close> returns true. Nothing is stated about \<^verbatim>\<open>is_end_of_record\<close>
  in the formats Hits and Dets, which inherit it from the base class.
\<close>

theorem read_all_bits_then_end:
  "(make s f n nd nl = Inr r \<longrightarrow>
      fresh r \<and> record_bits r = n \<and> (f = SAMPLE_FORMAT_01 \<longrightarrow> unread r = length s)
      \<and> is_01 r = (f = SAMPLE_FORMAT_01)
      \<and> inherits_is_end_of_record r = (f = SAMPLE_FORMAT_HITS \<or> f = SAMPLE_FORMAT_DETS))
   \<and> (record_bits r0 \<le> SSIZE_MAX \<and> next_record r0 = (Inr True, r) \<longrightarrow>
      fresh r \<and> record_bits r = record_bits r0)
   \<and> (fresh r \<and> read_bits read_bit (record_bits r) r = (Inr bits, r1) \<longrightarrow>
      length bits = record_bits r
      \<and> record_bits r1 = record_bits r
      \<and> fst (read_bit r1)
          = Inl (if is_01 r \<and> unread r \<le> record_bits r then EndOfStream else EndOfRecord)
      \<and> (\<not> inherits_is_end_of_record r \<longrightarrow> fst (is_end_of_record r1))
      \<and> fst (read_bit (snd (is_end_of_record r1))) = fst (read_bit r1))"
proof (intro conjI impI)
  assume "make s f n nd nl = Inr r"
  from make_fresh [OF this]
  show "fresh r" "record_bits r = n" "is_01 r = (f = SAMPLE_FORMAT_01)"
    "inherits_is_end_of_record r = (f = SAMPLE_FORMAT_HITS \<or> f = SAMPLE_FORMAT_DETS)"
    by simp_all
next
  assume "make s f n nd nl = Inr r" and "f = SAMPLE_FORMAT_01"
  with make_fresh [of s f n nd nl r] show "unread r = length s" by simp
next
  assume "record_bits r0 \<le> SSIZE_MAX \<and> next_record r0 = (Inr True, r)"
  with next_record_fresh [of r0 r] show "fresh r" "record_bits r = record_bits r0"
    by simp_all
next
  assume a: "fresh r \<and> read_bits read_bit (record_bits r) r = (Inr bits, r1)"
  then have n: "record_bits r \<le> SSIZE_MAX" by (simp add: fresh_def)
  from a read_all_bits_counts [of r bits r1]
  have c: "counts (unread r) (record_bits r) (record_bits r) r1"
    and sf: "same_format r r1" and len: "length bits = record_bits r"
    by simp_all
  from sf have k: "is_01 r1 = is_01 r"
    "inherits_is_end_of_record r1 = inherits_is_end_of_record r"
    by (simp_all add: same_format_def)
  show "length bits = record_bits r" by (rule len)
  from c show "record_bits r1 = record_bits r" by (simp add: counts_def)
  from counts_end(2) [OF c n]
  show "fst (read_bit r1)
          = Inl (if is_01 r \<and> unread r \<le> record_bits r then EndOfStream else EndOfRecord)"
    by (simp only: k)
  from counts_end(3) [OF c n]
  show "fst (read_bit (snd (is_end_of_record r1))) = fst (read_bit r1)" .
  assume "\<not> inherits_is_end_of_record r"
  with counts_end(1) [OF c n] k show "fst (is_end_of_record r1)" by simp
qed

theorem read_all_bits_then_end_witness:
  "make [48, 49, 10, 49, 48, 10] SAMPLE_FORMAT_01 2 0 0
     = Inr (Reader01 \<lparr>MeasureRecordReader.position = 0, bits_per_record = 2,
                      Format01.inp = [49, 10, 49, 48, 10], Format01.payload = 48\<rparr>)
   \<and> read_bits read_bit 2
        (Reader01 \<lparr>MeasureRecordReader.position = 0, bits_per_record = 2,
                   Format01.inp = [49, 10, 49, 48, 10], Format01.payload = 48\<rparr>)
     = (Inr [False, True],
        Reader01 \<lparr>MeasureRecordReader.position = 2, bits_per_record = 2,
                  Format01.inp = [49, 48, 10], Format01.payload = 10\<rparr>)
   \<and> fst (is_end_of_record
        (Reader01 \<lparr>MeasureRecordReader.position = 2, bits_per_record = 2,
                   Format01.inp = [49, 48, 10], Format01.payload = 10\<rparr>))
   \<and> fst (read_bit
        (Reader01 \<lparr>MeasureRecordReader.position = 2, bits_per_record = 2,
                   Format01.inp = [49, 48, 10], Format01.payload = 10\<rparr>)) = Inl EndOfRecord
   \<and> next_record
        (Reader01 \<lparr>MeasureRecordReader.position = 2, bits_per_record = 2,
                   Format01.inp = [49, 48, 10], Format01.payload = 10\<rparr>)
     = (Inr True,
        Reader01 \<lparr>MeasureRecordReader.position = 0, bits_per_record = 2,
                  Format01.inp = [48, 10], Format01.payload = 49\<rparr>)
   \<and> read_bits read_bit 2
        (Reader01 \<lparr>MeasureRecordReader.position = 0, bits_per_record = 2,
                   Format01.inp = [48, 10], Format01.payload = 49\<rparr>)
     = (Inr [True, False],
        Reader01 \<lparr>MeasureRecordReader.position = 2, bits_per_record = 2,
                  Format01.inp = [], Format01.payload = 10\<rparr>)
   \<and> fst (is_end_of_record
        (Reader01 \<lparr>MeasureRecordReader.position = 2, bits_per_record = 2,
                   Format01.inp = [], Format01.payload = 10\<rparr>))
   \<and> fst (read_bit
        (Reader01 \<lparr>MeasureRecordReader.position = 2, bits_per_record = 2,
                   Format01.inp = [], Format01.payload = 10\<rparr>)) = Inl EndOfRecord
   \<and> make [49, 44, 51, 44, 55, 10] SAMPLE_FORMAT_HITS 8 0 0
     = Inr (ReaderHits \<lparr>MeasureRecordReader.position = 0, bits_per_record = 8,
                        FormatHits.inp = [51, 44, 55, 10], separator = 44, next_hit = 1,
                        position = 0\<rparr>)
   \<and> read_bits read_bit 8
        (ReaderHits \<lparr>MeasureRecordReader.position = 0, bits_per_record = 8,
                     FormatHits.inp = [51, 44, 55, 10], separator = 44, next_hit = 1,
                     position = 0\<rparr>)
     = (Inr [False, True, False, True, False, False, False, True],
        ReaderHits \<lparr>MeasureRecordReader.position = 0, bits_per_record = 8,
                    FormatHits.inp = [], separator = 10, next_hit = 7, position = 8\<rparr>)
   \<and> fst (read_bit
        (ReaderHits \<lparr>MeasureRecordReader.position = 0, bits_per_record = 8,
                     FormatHits.inp = [], separator = 10, next_hit = 7, position = 8\<rparr>))
     = Inl EndOfRecord"
proof -
  let ?r = "Reader01 \<lparr>MeasureRecordReader.position = 0, bits_per_record = 2,
                      Format01.inp = [49, 10, 49, 48, 10], Format01.payload = 48\<rparr>"
  let ?ra = "Reader01 \<lparr>MeasureRecordReader.position = 2, bits_per_record = 2,
                       Format01.inp = [49, 48, 10], Format01.payload = 10\<rparr>"
  let ?rb = "Reader01 \<lparr>MeasureRecordReader.position = 0, bits_per_record = 2,
                       Format01.inp = [48, 10], Format01.payload = 49\<rparr>"
  let ?rc = "Reader01 \<lparr>MeasureRecordReader.position = 2, bits_per_record = 2,
                       Format01.inp = [], Format01.payload = 10\<rparr>"
  let ?h = "ReaderHits \<lparr>MeasureRecordReader.position = 0, bits_per_record = 8,
                        FormatHits.inp = [51, 44, 55, 10], separator = 44, next_hit = 1,
                        position = 0\<rparr>"
  let ?ha = "ReaderHits \<lparr>MeasureRecordReader.position = 0, bits_per_record = 8,
                         FormatHits.inp = [], separator = 10, next_hit = 7, position = 8\<rparr>"
  have m: "make [48, 49, 10, 49, 48, 10] SAMPLE_FORMAT_01 2 0 0 = Inr ?r"
    by code_simp
  have b1: "read_bits read_bit 2 ?r = (Inr [False, True], ?ra)"
    by code_simp
  have nr: "next_record ?ra = (Inr True, ?rb)"
    by code_simp
  have b2: "read_bits read_bit 2 ?rb = (Inr [True, False], ?rc)"
    by code_simp
  have mh: "make [49, 44, 51, 44, 55, 10] SAMPLE_FORMAT_HITS 8 0 0 = Inr ?h"
    by code_simp
  have b3: "read_bits read_bit 8 ?h
              = (Inr [False, True, False, True, False, False, False, True], ?ha)"
    by code_simp
  have u: "unread ?r = 6" "unread ?rb = 3" "record_bits ?r = 2" "record_bits ?ra = 2"
    "record_bits ?rb = 2" "is_01 ?r" "is_01 ?rb"
    "\<not> inherits_is_end_of_record ?r" "\<not> inherits_is_end_of_record ?rb"
    "record_bits ?h = 8" "\<not> is_01 ?h"
    by (simp_all add: unread_def rem01_def record_bits_def is_01_def
          inherits_is_end_of_record_def)
  note t1 = read_all_bits_then_end
              [where s = "[48, 49, 10, 49, 48, 10]" and f = SAMPLE_FORMAT_01 and n = 2
                 and nd = 0 and nl = 0 and r = ?r and bits = "[False, True]" and ?r1.0 = ?ra]
  note t2 = read_all_bits_then_end
              [where ?r0.0 = ?ra and r = ?rb and bits = "[True, False]" and ?r1.0 = ?rc]
  note t3 = read_all_bits_then_end
              [where s = "[49, 44, 51, 44, 55, 10]" and f = SAMPLE_FORMAT_HITS and n = 8
                 and nd = 0 and nl = 0 and r = ?h
                 and bits = "[False, True, False, True, False, False, False, True]"
                 and ?r1.0 = ?ha]
  from t1 m b1 u have "fst (is_end_of_record ?ra) \<and> fst (read_bit ?ra) = Inl EndOfRecord"
    by simp
  moreover from t2 nr b2 u
  have "fst (is_end_of_record ?rc) \<and> fst (read_bit ?rc) = Inl EndOfRecord"
    by (simp add: SSIZE_MAX_def)
  moreover from t3 mh b3 u have "fst (read_bit ?ha) = Inl EndOfRecord"
    by simp
  ultimately show ?thesis using m b1 nr b2 mh b3 by simp
qed

text \<open>
  The claim as stated fails in the 01 format on the stream \<open>01\<close> with 2 bits per
  record and no newline: after the two bits the further \<^verbatim>\<open>read_bit\<close> raises the
  end-of-stream error, not the end-of-record one.
\<close>

theorem read_all_bits_then_end_counterexample:
  "case make (map of_char ''01'') SAMPLE_FORMAT_01 2 0 0 of
      Inl e \<Rightarrow> False
    | Inr r0 \<Rightarrow>
        (case read_bits read_bit 2 r0 of
           (res, r1) \<Rightarrow>
             res = Inr [False, True] \<and> fst (is_end_of_record r1)
             \<and> fst (read_bit r1) = Inl EndOfStream)"
  by code_simp


subsection \<open>Format R8: the bits of a stream of run descriptors\<close>

text \<open>
  What the format means, to compare the reader with: \<open>r8_runs\<close> gives the lengths of
  the runs of zeros that the descriptors of a stream encode (0xFF adds 255 and
  continues; a descriptor cut by the end of the stream counts with what it has), and
  \<open>r8_bits\<close> the bits decoded from them.
\<close>

fun r8_runs :: "nat \<Rightarrow> bool \<Rightarrow> uint8 list \<Rightarrow> nat list" where
  "r8_runs acc opened [] = (if opened then [acc] else [])"
| "r8_runs acc opened (b # bs) =
     (if b = 0xFF then r8_runs (acc + 255) True bs else (acc + unat b) # r8_runs 0 False bs)"

definition r8_later_runs :: "nat list \<Rightarrow> bool list" where
  "r8_later_runs rs = concat (map (\<lambda>r. True # replicate r False) rs)"

definition r8_bits :: "uint8 list \<Rightarrow> bool list" where
  "r8_bits s =
     (case r8_runs 0 False s of
        [] \<Rightarrow> []
      | r # rs \<Rightarrow> replicate r False @ r8_later_runs rs)"

lemma uint_eq_255_iff: "uint (b::uint8) = 255 \<longleftrightarrow> b = 0xFF"
  by (simp add: word_uint_eq_iff)

lemma uint8_run_add: "(if uint (b::uint8) > 0 then nat (uint b) else 0) = unat b"
proof (cases "b = 0")
  case True
  then show ?thesis by simp
next
  case False
  then have "uint b \<noteq> 0" by (simp add: uint_0_iff)
  with uint_ge_0 [of b] have "0 < uint b" by linarith
  then show ?thesis by simp
qed

lemma continue_run_not_FF:
  "r \<noteq> 0xFF \<Longrightarrow> FormatR8_continue_run s acc r = (s, acc, r)"
  by (subst FormatR8_continue_run.simps) (simp only: if_False)

lemma continue_run_FF:
  "FormatR8_continue_run s acc 0xFF =
     FormatR8_continue_run (snd (getc s)) ((acc + 0xFF) mod 2 ^ 64) (fst (getc s))"
  by (subst FormatR8_continue_run.simps) (simp only: refl if_True Let_def case_prod_beta)

lemma continue_run_byte_not_FF:
  assumes "b \<noteq> 0xFF" and "FormatR8_continue_run s acc (uint b) = (rest, len, r1)"
    and "acc + 255 * (1 + length s) < 2 ^ 64"
  shows "r8_runs acc opened (b # s) = (len + (if r1 > 0 then nat r1 else 0)) # r8_runs 0 False rest
     \<and> len + (if r1 > 0 then nat r1 else 0) < 2 ^ 64
     \<and> length rest \<le> length s"
proof -
  from assms(1) have "uint b \<noteq> 0xFF" by (simp add: uint_eq_255_iff)
  from continue_run_not_FF [OF this, of s acc] assms(2)
  have eqs: "rest = s" "len = acc" "r1 = uint b"
    by simp_all
  have b: "unat b < 256"
    using unsigned_less [of b, where 'a = nat] by simp
  with assms(3) have "acc + unat b < 2 ^ 64" by simp
  with assms(1) show ?thesis
    unfolding eqs uint8_run_add by simp
qed

lemma continue_run_runs:
  "FormatR8_continue_run s acc (uint b) = (rest, len, r1) \<Longrightarrow>
   acc + 255 * (1 + length s) < 2 ^ 64 \<Longrightarrow>
     r8_runs acc opened (b # s) = (len + (if r1 > 0 then nat r1 else 0)) # r8_runs 0 False rest
     \<and> len + (if r1 > 0 then nat r1 else 0) < 2 ^ 64
     \<and> length rest \<le> length s"
proof (induction s arbitrary: acc b opened)
  case Nil
  show ?case
  proof (cases "b = 0xFF")
    case True
    from Nil(2) have lt: "acc + 255 < 2 ^ 64" by simp
    have "FormatR8_continue_run [] acc (uint b) = ([], acc + 255, EOF)"
      unfolding True using lt by (simp add: continue_run_FF getc_def continue_run_not_FF)
    with Nil True show ?thesis
      by simp
  next
    case False
    from continue_run_byte_not_FF [OF False Nil(1) Nil(2)] show ?thesis .
  qed
next
  case (Cons c s)
  show ?case
  proof (cases "b = 0xFF")
    case True
    from Cons.prems(2) have lt: "acc + 255 < 2 ^ 64" by simp
    from Cons.prems(1) True lt
    have "FormatR8_continue_run s (acc + 255) (uint c) = (rest, len, r1)"
      by (simp add: continue_run_FF getc_def)
    from Cons.IH [OF this, of True] Cons.prems(2) True show ?thesis
      by simp
  next
    case False
    from continue_run_byte_not_FF [OF False Cons.prems(1) Cons.prems(2)] show ?thesis .
  qed
qed


lemma FormatR8_update_run_length_empty:
  "FormatR8.inp st = [] \<Longrightarrow> FormatR8_update_run_length st = (False, st)"
  by (simp add: FormatR8_update_run_length_def getc_def)

lemma FormatR8_update_run_length_runs:
  assumes i: "FormatR8.inp st = b # s" and len: "255 * (1 + length s) < (2::nat) ^ 64"
  shows "\<exists>run rest.
           FormatR8_update_run_length st
             = (True, st\<lparr>FormatR8.inp := rest, run_length_0s := run, run_length_1s := 1,
                         generated_0s := 0, generated_1s := 0\<rparr>)
           \<and> r8_runs 0 False (b # s) = run # r8_runs 0 False rest
           \<and> length rest \<le> length s"
proof -
  obtain rest len r1 where c: "FormatR8_continue_run s 0 (uint b) = (rest, len, r1)"
    by (metis prod_cases3)
  from len have "0 + 255 * (1 + length s) < (2::nat) ^ 64" by simp
  from continue_run_runs [OF c this, of False]
  have runs: "r8_runs 0 False (b # s)
                = (len + (if r1 > 0 then nat r1 else 0)) # r8_runs 0 False rest"
    and bound: "len + (if r1 > 0 then nat r1 else 0) < 2 ^ 64"
    and shorter: "length rest \<le> length s"
    by simp_all
  have "(if r1 > 0 then (len + nat r1) mod 2 ^ 64 else len)
          = len + (if r1 > 0 then nat r1 else 0)"
    using bound by (simp split: if_splits)
  then have "FormatR8_update_run_length st
      = (True, st\<lparr>FormatR8.inp := rest,
                  run_length_0s := len + (if r1 > 0 then nat r1 else 0),
                  run_length_1s := 1, generated_0s := 0, generated_1s := 0\<rparr>)"
    unfolding FormatR8_update_run_length_def
    by (simp only: i getc_def list.case prod.case Let_def uint_not_EOF if_False c)
  with runs shorter show ?thesis by blast
qed

definition r8_pending :: "FormatR8 \<Rightarrow> bool list" where
  "r8_pending st =
     replicate (run_length_1s st - generated_1s st) True
     @ replicate (run_length_0s st - generated_0s st) False"

definition r8_remaining :: "FormatR8 \<Rightarrow> bool list" where
  "r8_remaining st = r8_pending st @ r8_later_runs (r8_runs 0 False (FormatR8.inp st))"

lemma replicate_diff_Suc: "a < b \<Longrightarrow> replicate (b - a) x = x # replicate (b - Suc a) x"
  by (metis Suc_diff_Suc replicate_Suc)

lemma FormatR8_read_bit_remaining:
  assumes p: "MeasureRecordReader.position st < bits_per_record st"
    and len: "length (FormatR8.inp st) < 2 ^ 56"
  shows "case r8_remaining st of
           [] \<Rightarrow> fst (FormatR8_read_bit st) = Inl EndOfStream
         | b # bs \<Rightarrow>
             (\<exists>st'. FormatR8_read_bit st = (Inr b, st') \<and> r8_remaining st' = bs
                \<and> MeasureRecordReader.position st' = MeasureRecordReader.position st + 1
                \<and> bits_per_record st' = bits_per_record st
                \<and> length (FormatR8.inp st') \<le> length (FormatR8.inp st))"
proof -
  consider (ones) "generated_1s st < run_length_1s st"
    | (zeros) "\<not> generated_1s st < run_length_1s st" "generated_0s st < run_length_0s st"
    | (eof) "\<not> generated_1s st < run_length_1s st" "\<not> generated_0s st < run_length_0s st"
            "FormatR8.inp st = []"
    | (fetch) b s where "\<not> generated_1s st < run_length_1s st"
            "\<not> generated_0s st < run_length_0s st" "FormatR8.inp st = b # s"
    by (cases "FormatR8.inp st") auto
  then show ?thesis
  proof cases
    case ones
    with p show ?thesis
      by (simp add: r8_remaining_def r8_pending_def FormatR8_read_bit_def
            replicate_diff_Suc [of "generated_1s st"])
  next
    case zeros
    with p show ?thesis
      by (simp add: r8_remaining_def r8_pending_def FormatR8_read_bit_def
            replicate_diff_Suc [of "generated_0s st"])
  next
    case eof
    with p show ?thesis
      by (simp add: r8_remaining_def r8_pending_def FormatR8_read_bit_def r8_later_runs_def
            FormatR8_update_run_length_empty)
  next
    case fetch
    from len fetch(3) have "255 * (1 + length s) < (2::nat) ^ 64" by simp
    from FormatR8_update_run_length_runs [OF fetch(3) this]
    obtain run rest where
      u: "FormatR8_update_run_length st
             = (True, st\<lparr>FormatR8.inp := rest, run_length_0s := run, run_length_1s := 1,
                         generated_0s := 0, generated_1s := 0\<rparr>)"
      and runs: "r8_runs 0 False (b # s) = run # r8_runs 0 False rest"
      and shorter: "length rest \<le> length s"
      by blast
    from p fetch u runs shorter show ?thesis
      by (simp add: r8_remaining_def r8_pending_def FormatR8_read_bit_def r8_later_runs_def)
  qed
qed


lemma FormatR8_read_bits_remaining:
  "MeasureRecordReader.position st + j \<le> bits_per_record st \<Longrightarrow>
   j \<le> length (r8_remaining st) \<Longrightarrow> length (FormatR8.inp st) < 2 ^ 56 \<Longrightarrow>
     \<exists>st'. read_bits FormatR8_read_bit j st = (Inr (take j (r8_remaining st)), st')
        \<and> r8_remaining st' = drop j (r8_remaining st)
        \<and> MeasureRecordReader.position st' = MeasureRecordReader.position st + j
        \<and> bits_per_record st' = bits_per_record st
        \<and> length (FormatR8.inp st') < 2 ^ 56"
proof (induction j arbitrary: st)
  case 0
  then show ?case by simp
next
  case (Suc j)
  from Suc.prems(2) obtain b bs where rem: "r8_remaining st = b # bs"
    by (cases "r8_remaining st") auto
  from Suc.prems(1) have p: "MeasureRecordReader.position st < bits_per_record st"
    by simp
  from FormatR8_read_bit_remaining [OF p Suc.prems(3)] rem
  obtain st1 where rb: "FormatR8_read_bit st = (Inr b, st1)" and rem1: "r8_remaining st1 = bs"
    and p1: "MeasureRecordReader.position st1 = MeasureRecordReader.position st + 1"
    and n1: "bits_per_record st1 = bits_per_record st"
    and l1: "length (FormatR8.inp st1) \<le> length (FormatR8.inp st)"
    by auto
  from Suc.prems rem rem1 p1 n1 l1
  have "MeasureRecordReader.position st1 + j \<le> bits_per_record st1"
    "j \<le> length (r8_remaining st1)" "length (FormatR8.inp st1) < 2 ^ 56"
    by simp_all
  from Suc.IH [OF this] obtain st' where
    "read_bits FormatR8_read_bit j st1 = (Inr (take j (r8_remaining st1)), st')"
    "r8_remaining st' = drop j (r8_remaining st1)"
    "MeasureRecordReader.position st' = MeasureRecordReader.position st1 + j"
    "bits_per_record st' = bits_per_record st1"
    "length (FormatR8.inp st') < 2 ^ 56"
    by blast
  with rb rem rem1 p1 n1 show ?case by simp
qed

lemma FormatR8_read_bits_exhausted:
  assumes "MeasureRecordReader.position st + length (r8_remaining st) < bits_per_record st"
    and "length (FormatR8.inp st) < 2 ^ 56"
  shows "fst (read_bits FormatR8_read_bit (Suc (length (r8_remaining st))) st) = Inl EndOfStream"
  using assms
proof (induction "length (r8_remaining st)" arbitrary: st)
  case 0
  then have rem: "r8_remaining st = []" by simp
  from 0 have p: "MeasureRecordReader.position st < bits_per_record st" by simp
  from FormatR8_read_bit_remaining [OF p "0.prems"(2)] rem
  have "fst (FormatR8_read_bit st) = Inl EndOfStream" by simp
  then obtain st1 where "FormatR8_read_bit st = (Inl EndOfStream, st1)"
    by (cases "FormatR8_read_bit st") auto
  then show ?case
    unfolding rem by simp
next
  case (Suc k)
  then obtain b bs where rem: "r8_remaining st = b # bs" and k: "k = length bs"
    by (cases "r8_remaining st") auto
  from Suc.prems have p: "MeasureRecordReader.position st < bits_per_record st" by simp
  from FormatR8_read_bit_remaining [OF p Suc.prems(2)] rem
  obtain st1 where rb: "FormatR8_read_bit st = (Inr b, st1)" and rem1: "r8_remaining st1 = bs"
    and p1: "MeasureRecordReader.position st1 = MeasureRecordReader.position st + 1"
    and n1: "bits_per_record st1 = bits_per_record st"
    and l1: "length (FormatR8.inp st1) \<le> length (FormatR8.inp st)"
    by auto
  from k rem1 have k1: "k = length (r8_remaining st1)" by simp
  from Suc.prems rem rem1 p1 n1 l1
  have "MeasureRecordReader.position st1 + length (r8_remaining st1) < bits_per_record st1"
    "length (FormatR8.inp st1) < 2 ^ 56"
    by simp_all
  from Suc.hyps(1) [OF k1 this]
  have "fst (read_bits FormatR8_read_bit (Suc (length bs)) st1) = Inl EndOfStream"
    unfolding rem1 .
  with rb show ?case
    unfolding rem by (simp split: prod.splits sum.splits)
qed

lemma FormatR8_ctor_remaining:
  assumes "FormatR8_ctor s n = Inr st0" and "length s < 2 ^ 56"
  shows "r8_remaining st0 = r8_bits s \<and> MeasureRecordReader.position st0 = 0
       \<and> bits_per_record st0 = n \<and> length (FormatR8.inp st0) < 2 ^ 56"
proof (cases s)
  case Nil
  with assms show ?thesis
    by (auto simp: FormatR8_ctor_def MeasureRecordReader_ctor_def MeasureRecordReader.extend_def
          FormatR8_update_run_length_empty r8_remaining_def r8_pending_def r8_bits_def
          r8_later_runs_def
          split: if_splits)
next
  case (Cons b s')
  let ?st = "\<lparr>MeasureRecordReader.position = 0, bits_per_record = n, FormatR8.inp = s,
              run_length_0s = 0, run_length_1s = 0, generated_0s = 0, generated_1s = 1\<rparr>"
  have i: "FormatR8.inp ?st = b # s'" by (simp add: Cons)
  from assms(2) Cons have "255 * (1 + length s') < (2::nat) ^ 64" by simp
  from FormatR8_update_run_length_runs [OF i this]
  obtain run rest where
    u: "FormatR8_update_run_length ?st
           = (True, ?st\<lparr>FormatR8.inp := rest, run_length_0s := run, run_length_1s := 1,
                       generated_0s := 0, generated_1s := 0\<rparr>)"
    and runs: "r8_runs 0 False (b # s') = run # r8_runs 0 False rest"
    and shorter: "length rest \<le> length s'"
    by blast
  from assms u runs shorter Cons show ?thesis
    by (auto simp: FormatR8_ctor_def MeasureRecordReader_ctor_def MeasureRecordReader.extend_def
          r8_remaining_def r8_pending_def r8_bits_def split: if_splits)
qed


lemma FormatR8_read_bit_EndOfStream_iff:
  "fst (FormatR8_read_bit st) = Inl EndOfStream \<longleftrightarrow>
     MeasureRecordReader.position st < bits_per_record st
     \<and> \<not> generated_1s st < run_length_1s st \<and> \<not> generated_0s st < run_length_0s st
     \<and> FormatR8.inp st = []"
proof (cases "FormatR8.inp st")
  case Nil
  then show ?thesis
    by (simp add: FormatR8_read_bit_def FormatR8_update_run_length_empty)
next
  case (Cons b s)
  have "fst (FormatR8_update_run_length st)"
    using Cons by (simp add: FormatR8_update_run_length_def getc_def split: prod.splits)
  with Cons show ?thesis
    by (auto simp: FormatR8_read_bit_def split: prod.splits bool.splits)
qed

lemma r8_runs_descriptor:
  "r \<noteq> 0xFF \<Longrightarrow>
     r8_runs acc opened (replicate k 0xFF @ r # rest) = (acc + 255 * k + unat r) # r8_runs 0 False rest"
  by (induction k arbitrary: acc opened) simp_all

lemma continue_run_descriptor:
  "r \<noteq> 0xFF \<Longrightarrow> acc + 255 * (k + 1) < 2 ^ 64 \<Longrightarrow>
     FormatR8_continue_run (replicate k 0xFF @ r # rest) acc 0xFF
       = (rest, acc + 255 * (k + 1), uint r)"
proof (induction k arbitrary: acc)
  case 0
  then have "uint r \<noteq> 0xFF" by (simp add: uint_eq_255_iff)
  with 0 show ?case
    by (simp add: continue_run_FF getc_def continue_run_not_FF)
next
  case (Suc k)
  from Suc.prems(2) have lt: "acc + 255 < 2 ^ 64" by simp
  from Suc.prems(2) have "acc + 255 + 255 * (k + 1) < 2 ^ 64" by simp
  from Suc.IH [OF Suc.prems(1) this] lt show ?case
    by (simp add: continue_run_FF getc_def)
qed

lemma FormatR8_update_run_length_descriptor:
  assumes i: "FormatR8.inp st = replicate k 0xFF @ r # rest" and r: "r \<noteq> 0xFF"
    and len: "length (FormatR8.inp st) < 2 ^ 56"
  shows "FormatR8_update_run_length st
           = (True, st\<lparr>FormatR8.inp := rest, run_length_0s := 255 * k + unat r,
                       run_length_1s := 1, generated_0s := 0, generated_1s := 0\<rparr>)"
proof -
  have b: "unat r < 256"
    using unsigned_less [of r, where 'a = nat] by simp
  from len i have kb: "255 * k + 255 < (2::nat) ^ 64" by simp
  from r have ne: "uint r \<noteq> 0xFF" by (simp add: uint_eq_255_iff)
  show ?thesis
  proof (cases k)
    case 0
    have lt: "unat r < 2 ^ 64"
      using b by simp
    have z: "\<not> 0 < uint r \<Longrightarrow> unat r = 0"
      using uint8_run_add [of r] by (simp split: if_splits)
    from lt z 0 i ne show ?thesis
      by (auto simp: FormatR8_update_run_length_def getc_def continue_run_not_FF)
  next
    case (Suc k')
    from kb Suc have "0 + 255 * (k' + 1) < (2::nat) ^ 64" by simp
    from continue_run_descriptor [OF r this, of rest]
    have c: "FormatR8_continue_run (replicate k' 0xFF @ r # rest) 0 0xFF
               = (rest, 255 * k, uint r)"
      by (simp add: Suc)
    have lt: "255 * k + unat r < 2 ^ 64"
      using b kb by simp
    have z: "\<not> 0 < uint r \<Longrightarrow> unat r = 0"
      using uint8_run_add [of r] by (simp split: if_splits)
    from lt z Suc i c show ?thesis
      by (auto simp: FormatR8_update_run_length_def getc_def)
  qed
qed


text \<open>
  Claim C2, as amended. In the R8 format \<^verbatim>\<open>update_run_length\<close> reads one run
  descriptor: each byte 0xFF adds 255 to the run of zeros and continues, and a byte \<open>r\<close>
  in 0..254 adds \<open>r\<close> and ends the descriptor, setting \<^verbatim>\<open>run_length_1s\<close> to 1 (the
  stream being shorter than \<open>2^56\<close> bytes, no sum wraps). The 1-bit of a descriptor
  is produced by \<^verbatim>\<open>read_bit\<close> before its zeros, and the constructor, which reads the
  first descriptor, cancels the 1-bit of that one. So the bits decoded from a stream of
  descriptors \<open>d1 ... dm\<close> are the zeros of \<open>d1\<close>, then for each further descriptor a
  single 1 followed by its zeros (\<open>r8_bits\<close>): one 1 between two descriptors, none
  after the last. Within the record, \<^verbatim>\<open>read_bit\<close> returns these bits in sequence, and
  raises the end-of-stream error exactly when the cursor is within the record, no bit
  of the current run is left and the stream is exhausted.
\<close>

theorem FormatR8_decoding:
  "(FormatR8.inp st = replicate k 0xFF @ r # rest \<and> r \<noteq> 0xFF
      \<and> length (FormatR8.inp st) < 2 ^ 56 \<longrightarrow>
      FormatR8_update_run_length st
        = (True, st\<lparr>FormatR8.inp := rest, run_length_0s := 255 * k + unat r,
                    run_length_1s := 1, generated_0s := 0, generated_1s := 0\<rparr>)
      \<and> r8_runs 0 False (FormatR8.inp st) = (255 * k + unat r) # r8_runs 0 False rest)
   \<and> (FormatR8_ctor s n = Inr st0 \<and> length s < 2 ^ 56 \<longrightarrow>
        (j \<le> n \<and> j \<le> length (r8_bits s) \<longrightarrow>
           fst (read_bits FormatR8_read_bit j st0) = Inr (take j (r8_bits s)))
        \<and> (length (r8_bits s) < n \<longrightarrow>
           fst (read_bits FormatR8_read_bit (Suc (length (r8_bits s))) st0) = Inl EndOfStream))
   \<and> (fst (FormatR8_read_bit st) = Inl EndOfStream \<longleftrightarrow>
        MeasureRecordReader.position st < bits_per_record st
        \<and> \<not> generated_1s st < run_length_1s st \<and> \<not> generated_0s st < run_length_0s st
        \<and> FormatR8.inp st = [])"
proof (intro conjI impI)
  assume a: "FormatR8.inp st = replicate k 0xFF @ r # rest \<and> r \<noteq> 0xFF
      \<and> length (FormatR8.inp st) < 2 ^ 56"
  then show "FormatR8_update_run_length st
        = (True, st\<lparr>FormatR8.inp := rest, run_length_0s := 255 * k + unat r,
                    run_length_1s := 1, generated_0s := 0, generated_1s := 0\<rparr>)"
    by (blast intro: FormatR8_update_run_length_descriptor)
  from a show "r8_runs 0 False (FormatR8.inp st) = (255 * k + unat r) # r8_runs 0 False rest"
    by (simp add: r8_runs_descriptor)
next
  assume c: "FormatR8_ctor s n = Inr st0 \<and> length s < 2 ^ 56"
  then have init: "r8_remaining st0 = r8_bits s" "MeasureRecordReader.position st0 = 0"
    "bits_per_record st0 = n" "length (FormatR8.inp st0) < 2 ^ 56"
    using FormatR8_ctor_remaining [of s n st0] by simp_all
  {
    assume "j \<le> n \<and> j \<le> length (r8_bits s)"
    with init FormatR8_read_bits_remaining [of st0 j]
    show "fst (read_bits FormatR8_read_bit j st0) = Inr (take j (r8_bits s))"
      by auto
  }
  {
    assume "length (r8_bits s) < n"
    with init FormatR8_read_bits_exhausted [of st0]
    show "fst (read_bits FormatR8_read_bit (Suc (length (r8_bits s))) st0) = Inl EndOfStream"
      by simp
  }
next
  show "fst (FormatR8_read_bit st) = Inl EndOfStream \<longleftrightarrow>
        MeasureRecordReader.position st < bits_per_record st
        \<and> \<not> generated_1s st < run_length_1s st \<and> \<not> generated_0s st < run_length_0s st
        \<and> FormatR8.inp st = []"
    by (rule FormatR8_read_bit_EndOfStream_iff)
qed

theorem FormatR8_decoding_witness:
  "FormatR8_update_run_length
      \<lparr>MeasureRecordReader.position = 0, bits_per_record = 300, FormatR8.inp = [0xFF, 3, 7],
       run_length_0s = 0, run_length_1s = 0, generated_0s = 0, generated_1s = 1\<rparr>
     = (True,
        \<lparr>MeasureRecordReader.position = 0, bits_per_record = 300, FormatR8.inp = [7],
         run_length_0s = 258, run_length_1s = 1, generated_0s = 0, generated_1s = 0\<rparr>)
   \<and> FormatR8_ctor [2, 0, 1] 8
     = Inr \<lparr>MeasureRecordReader.position = 0, bits_per_record = 8, FormatR8.inp = [0, 1],
            run_length_0s = 2, run_length_1s = 0, generated_0s = 0, generated_1s = 0\<rparr>
   \<and> r8_bits [2, 0, 1] = [False, False, True, True, False]
   \<and> fst (read_bits FormatR8_read_bit 5
        \<lparr>MeasureRecordReader.position = 0, bits_per_record = 8, FormatR8.inp = [0, 1],
         run_length_0s = 2, run_length_1s = 0, generated_0s = 0, generated_1s = 0\<rparr>)
     = Inr [False, False, True, True, False]
   \<and> fst (read_bits FormatR8_read_bit (Suc 5)
        \<lparr>MeasureRecordReader.position = 0, bits_per_record = 8, FormatR8.inp = [0, 1],
         run_length_0s = 2, run_length_1s = 0, generated_0s = 0, generated_1s = 0\<rparr>)
     = Inl EndOfStream"
proof -
  let ?u = "\<lparr>MeasureRecordReader.position = 0, bits_per_record = 300,
              FormatR8.inp = [0xFF, 3, 7],
              run_length_0s = 0, run_length_1s = 0, generated_0s = 0, generated_1s = 1\<rparr>"
  let ?init = "\<lparr>MeasureRecordReader.position = 0, bits_per_record = 8, FormatR8.inp = [0, 1],
               run_length_0s = 2, run_length_1s = 0, generated_0s = 0, generated_1s = 0\<rparr>"
  have c: "FormatR8_ctor [2, 0, 1] 8 = Inr ?init"
    by (simp add: FormatR8_ctor_def MeasureRecordReader_ctor_def SSIZE_MAX_def
          MeasureRecordReader.extend_def FormatR8_update_run_length_def getc_def
          FormatR8_continue_run.simps)
  have b: "r8_bits [2, 0, 1] = [False, False, True, True, False]"
    by (simp add: r8_bits_def r8_later_runs_def)
  have l: "length (r8_bits [2, 0, 1]) = 5"
    by (simp add: b)
  note t = FormatR8_decoding [of ?u "Suc 0" 3 "[7]" "[2, 0, 1]" 8 ?init 5, unfolded l]
  from t c b show ?thesis
    by (simp del: read_bits.simps)
qed

text \<open>
  The claim as stated gives one 1-bit to every byte other than 0xFF. On the stream of
  the single byte 0 the first \<^verbatim>\<open>read_bit\<close> raises the end-of-stream error: no 1-bit is
  produced. On the stream 2, 1 the reader produces 0, 0, 1, 0 and then raises the
  end-of-stream error: two bytes other than 0xFF, one 1-bit.
\<close>

theorem FormatR8_decoding_counterexample:
  "(case make [0] SAMPLE_FORMAT_R8 8 0 0 of
      Inl e \<Rightarrow> False
    | Inr r0 \<Rightarrow> fst (read_bit r0) = Inl EndOfStream)
   \<and> (case make [2, 1] SAMPLE_FORMAT_R8 8 0 0 of
      Inl e \<Rightarrow> False
    | Inr r0 \<Rightarrow>
        fst (read_bits read_bit 4 r0) = Inr [False, False, True, False]
        \<and> fst (read_bits read_bit 5 r0) = Inl EndOfStream)"
  by code_simp

subsection \<open>\<open>read_bytes\<close>: the overrides of B8 and R8 against the bit-by-bit path\<close>

text \<open>
  What a buffer holds after bits have been stored into it from its first byte on, the
  first bit in the lowest position of a byte: \<open>pack_byte\<close> is the byte made of up to 8
  bits, and \<open>pack_into data bits\<close> the buffer \<open>data\<close> with one byte replaced for every 8
  bits, or fewer at the end. The bytes no bit reaches keep their value.
\<close>

fun pack_byte :: "bool list \<Rightarrow> uint8" where
  "pack_byte [] = 0"
| "pack_byte (x # xs) = of_bool x OR push_bit 1 (pack_byte xs)"

fun pack_into :: "uint8 list \<Rightarrow> bool list \<Rightarrow> uint8 list" where
  "pack_into [] bits = []"
| "pack_into (d # ds) bits =
     (if bits = [] then d # ds else pack_byte (take 8 bits) # pack_into ds (drop 8 bits))"





lemma pack_into_Nil [simp]: "pack_into data [] = data"
  by (cases data) simp_all







text \<open>
  The B8 reader: the bits available are those left in \<^verbatim>\<open>payload\<close> followed by the bits
  of the bytes of the stream, lowest bit first, cut at the end of the record.
\<close>

definition byte_bits :: "uint8 \<Rightarrow> bool list" where
  "byte_bits x = map (bit x) [0..<8]"















lemma length_byte_bits [simp]: "length (byte_bits x) = 8"
  by (simp add: byte_bits_def)


























lemma pack_byte_zeros [simp]: "pack_byte (replicate j False) = 0"
  by (induction j) simp_all








end
